theory Spec2Isabelle
  imports Main "HOL-Library.Word" "HOL-Library.AList"
begin

section \<open>The host: errors, file system, capabilities\<close>

text \<open>
  \<^verbatim>\<open>transutil.py\<close> is a thin layer over the operating system. The part of the
  operating system it talks to is modelled here as an explicit state, \<open>world\<close>,
  that every call takes and returns.

  \<^item> A path is a string. The table \<open>names\<close> gives, for a path, the inode that
    \<^verbatim>\<open>lstat\<close> reaches (the last component is not followed). Paths are keys as they
    are spelled: two spellings of one location are two keys.
  \<^item> Hard links are two paths with one inode number; \<^verbatim>\<open>os.path.samefile\<close> compares
    inode numbers (there is one device).
  \<^item> A symbolic link is followed by looking its target up again, relative to the
    directory of the link, at most forty times (\<^verbatim>\<open>ELOOP\<close> after that, as in Linux).
  \<^item> Errors that have no cause inside this model (an extended attribute call that is
    not supported, \<^verbatim>\<open>chflags\<close> refused) are injected by fields of \<open>host\<close>.
\<close>

text \<open>
  An error number is an integer, as \<^verbatim>\<open>OSError.errno\<close> is, and the code compares
  integers (lines 60, 68 and 133). The constants of the module \<^verbatim>\<open>errno\<close> have the values
  of Linux, the platform on which Python provides \<^verbatim>\<open>os.listxattr\<close> and so the one where
  \<^verbatim>\<open>_copyxattr\<close> does anything. There \<^verbatim>\<open>EOPNOTSUPP\<close> and \<^verbatim>\<open>ENOTSUP\<close> are one number.
\<close>

type_synonym errno = nat

definition EPERM :: errno where "EPERM = 1"
definition ENOENT :: errno where "ENOENT = 2"
definition EIO :: errno where "EIO = 5"
definition EACCES :: errno where "EACCES = 13"
definition EEXIST :: errno where "EEXIST = 17"
definition ENOTDIR :: errno where "ENOTDIR = 20"
definition EISDIR :: errno where "EISDIR = 21"
definition EINVAL :: errno where "EINVAL = 22"
definition ENOSPC :: errno where "ENOSPC = 28"
definition ELOOP :: errno where "ELOOP = 40"
definition ENODATA :: errno where "ENODATA = 61"
definition ENOTSUP :: errno where "ENOTSUP = 95"
definition EOPNOTSUPP :: errno where "EOPNOTSUPP = 95"

text \<open>
  The exceptions of the module and of the interpreter that \<^verbatim>\<open>copyfile\<close> can meet.
  \<open>Hangs\<close> is not an exception: it stands for a call that does not return (\<^verbatim>\<open>open\<close>
  of a named pipe that has no peer).
\<close>

datatype error =
  SameFileError | SpecialFileError | OSError errno | NotImplementedError
  | AttributeError | Hangs

type_synonym path = string
type_synonym bytes = "8 word list"

datatype kind = Regular bytes | Directory | Fifo | Symlink path

record inode =
  kind :: kind
  st_perm :: nat
  st_atime_ns :: int
  st_mtime_ns :: int
  xattrs :: "(string \<times> bytes) list"
  st_flags :: nat

text \<open>
  The trace records the calls a claim speaks about: every \<^verbatim>\<open>open\<close> for reading, and
  every call of the metadata phase with its \<^verbatim>\<open>follow_symlinks\<close> argument.
\<close>

datatype event = OpenRead path | MetaCall string path bool

record world =
  names :: "path \<rightharpoonup> nat"
  inodes :: "nat \<Rightarrow> inode"
  next_ino :: nat
  now_ns :: int
  trace :: "event list"

record host =
  os_has :: "string \<Rightarrow> bool"
  supports_follow_symlinks :: "string \<Rightarrow> bool"
  has_st_flags :: bool
  file_create_perm :: nat
  chmod_unimplemented :: bool
  listxattr_err :: "nat \<Rightarrow> errno option"
  getxattr_err :: "nat \<Rightarrow> string \<Rightarrow> errno option"
  setxattr_err :: "nat \<Rightarrow> string \<Rightarrow> errno option"
  chflags_err :: "nat \<Rightarrow> errno option"

subsection \<open>\<^verbatim>\<open>posixpath\<close>\<close>

definition sep :: char where
  "sep = CHR ''/''"

definition basename :: "path \<Rightarrow> path" where
  "basename p = rev (takeWhile (\<lambda>c. c \<noteq> sep) (rev p))"

definition rstrip_sep :: "path \<Rightarrow> path" where
  "rstrip_sep p = rev (dropWhile (\<lambda>c. c = sep) (rev p))"

definition dirname :: "path \<Rightarrow> path" where
  "dirname p =
     (let head = rev (dropWhile (\<lambda>c. c \<noteq> sep) (rev p))
      in if head \<noteq> [] \<and> \<not> list_all (\<lambda>c. c = sep) head then rstrip_sep head else head)"

definition join :: "path \<Rightarrow> path \<Rightarrow> path" where
  "join a b =
     (if b \<noteq> [] \<and> hd b = sep then b
      else if a = [] \<or> last a = sep then a @ b
      else a @ [sep] @ b)"

subsection \<open>Resolution, \<^verbatim>\<open>stat\<close> and the \<^verbatim>\<open>os.path\<close> predicates\<close>

datatype target = Existing nat | Absent path

fun resolve :: "world \<Rightarrow> nat \<Rightarrow> path \<Rightarrow> errno + target" where
  "resolve w 0 p =
     (case names w p of
        None \<Rightarrow> Inr (Absent p)
      | Some i \<Rightarrow>
          (case kind (inodes w i) of
             Symlink t \<Rightarrow> Inl ELOOP
           | _ \<Rightarrow> Inr (Existing i)))"
| "resolve w (Suc n) p =
     (case names w p of
        None \<Rightarrow> Inr (Absent p)
      | Some i \<Rightarrow>
          (case kind (inodes w i) of
             Symlink t \<Rightarrow> resolve w n (join (dirname p) t)
           | _ \<Rightarrow> Inr (Existing i)))"

definition maxsymlinks :: nat where
  "maxsymlinks = 40"

definition lstat :: "world \<Rightarrow> path \<Rightarrow> errno + nat" where
  "lstat w p = (case names w p of None \<Rightarrow> Inl ENOENT | Some i \<Rightarrow> Inr i)"

definition stat :: "world \<Rightarrow> path \<Rightarrow> errno + nat" where
  "stat w p =
     (case resolve w maxsymlinks p of
        Inl e \<Rightarrow> Inl e
      | Inr (Absent q) \<Rightarrow> Inl ENOENT
      | Inr (Existing i) \<Rightarrow> Inr i)"

definition isdir :: "world \<Rightarrow> path \<Rightarrow> bool" where
  "isdir w p = (case stat w p of Inl e \<Rightarrow> False | Inr i \<Rightarrow> kind (inodes w i) = Directory)"

definition islink :: "world \<Rightarrow> path \<Rightarrow> bool" where
  "islink w p =
     (case lstat w p of
        Inl e \<Rightarrow> False
      | Inr i \<Rightarrow> (case kind (inodes w i) of Symlink t \<Rightarrow> True | _ \<Rightarrow> False))"

definition S_ISFIFO :: "inode \<Rightarrow> bool" where
  "S_ISFIFO st = (kind st = Fifo)"

definition S_IMODE :: "inode \<Rightarrow> nat" where
  "S_IMODE st = st_perm st"

section \<open>System calls\<close>

definition emit :: "event \<Rightarrow> world \<Rightarrow> world" where
  "emit ev w = w\<lparr>trace := trace w @ [ev]\<rparr>"

definition os_stat :: "path \<Rightarrow> bool \<Rightarrow> world \<Rightarrow> errno + nat" where
  "os_stat p follow w = (if follow then stat w p else lstat w p)"

definition readlink :: "path \<Rightarrow> world \<Rightarrow> errno + path" where
  "readlink p w =
     (case names w p of
        None \<Rightarrow> Inl ENOENT
      | Some i \<Rightarrow> (case kind (inodes w i) of Symlink t \<Rightarrow> Inr t | _ \<Rightarrow> Inl EINVAL))"

text \<open>
  A new directory entry needs its parent directory. An empty \<^verbatim>\<open>dirname\<close> is the
  current directory, which exists.
\<close>

definition parent_error :: "world \<Rightarrow> path \<Rightarrow> errno option" where
  "parent_error w p =
     (if p = [] then Some ENOENT
      else if dirname p = [] then None
      else (case stat w (dirname p) of
              Inl e \<Rightarrow> Some e
            | Inr i \<Rightarrow> if kind (inodes w i) = Directory then None else Some ENOTDIR))"

definition create :: "path \<Rightarrow> kind \<Rightarrow> nat \<Rightarrow> world \<Rightarrow> world" where
  "create p k perm w =
     w\<lparr>names := (names w)(p \<mapsto> next_ino w),
       inodes := (inodes w)(next_ino w :=
         \<lparr>kind = k, st_perm = perm, st_atime_ns = now_ns w, st_mtime_ns = now_ns w,
          xattrs = [], st_flags = 0\<rparr>),
       next_ino := Suc (next_ino w)\<rparr>"

definition symlink :: "path \<Rightarrow> path \<Rightarrow> world \<Rightarrow> (errno + unit) \<times> world" where
  "symlink t p w =
     (if names w p \<noteq> None then (Inl EEXIST, w)
      else (case parent_error w p of
              Some e \<Rightarrow> (Inl e, w)
            | None \<Rightarrow> (Inr (), create p (Symlink t) 511 w)))"

text \<open>\<^verbatim>\<open>open(p, 'rb')\<close>: the file object is the inode it reads from.\<close>

definition open_rb :: "path \<Rightarrow> world \<Rightarrow> (error + nat) \<times> world" where
  "open_rb p w =
     (case stat w p of
        Inl e \<Rightarrow> (Inl (OSError e), emit (OpenRead p) w)
      | Inr i \<Rightarrow>
          (case kind (inodes w i) of
             Regular b \<Rightarrow> (Inr i, emit (OpenRead p) w)
           | Directory \<Rightarrow> (Inl (OSError EISDIR), emit (OpenRead p) w)
           | Fifo \<Rightarrow> (Inl Hangs, emit (OpenRead p) w)
           | Symlink t \<Rightarrow> (Inl (OSError ELOOP), emit (OpenRead p) w)))"

definition set_data :: "nat \<Rightarrow> bytes \<Rightarrow> world \<Rightarrow> world" where
  "set_data i b w =
     w\<lparr>inodes := (inodes w)(i := (inodes w i)\<lparr>kind := Regular b, st_mtime_ns := now_ns w\<rparr>)\<rparr>"

text \<open>
  \<^verbatim>\<open>open(p, 'wb')\<close>: an existing regular file is truncated, a missing one is created
  (through a dangling symbolic link, at the place the link names).
\<close>

definition open_wb :: "host \<Rightarrow> path \<Rightarrow> world \<Rightarrow> (error + nat) \<times> world" where
  "open_wb h p w =
     (case resolve w maxsymlinks p of
        Inl e \<Rightarrow> (Inl (OSError e), w)
      | Inr (Existing i) \<Rightarrow>
          (case kind (inodes w i) of
             Regular b \<Rightarrow> (Inr i, set_data i [] w)
           | Directory \<Rightarrow> (Inl (OSError EISDIR), w)
           | Fifo \<Rightarrow> (Inl Hangs, w)
           | Symlink t \<Rightarrow> (Inl (OSError ELOOP), w))
      | Inr (Absent q) \<Rightarrow>
          (case parent_error w q of
             Some e \<Rightarrow> (Inl (OSError e), w)
           | None \<Rightarrow> (Inr (next_ino w), create q (Regular []) (file_create_perm h) w)))"

text \<open>
  Reading gives the bytes of the inode and leaves the world as it is. That the host may
  move the access time of the file that is read is not modelled; no statement below is
  about the access time of the source.
\<close>

definition fread :: "world \<Rightarrow> nat \<Rightarrow> bytes" where
  "fread w i = (case kind (inodes w i) of Regular b \<Rightarrow> b | _ \<Rightarrow> [])"

subsection \<open>The calls of the metadata phase\<close>

definition meta_stat :: "path \<Rightarrow> bool \<Rightarrow> world \<Rightarrow> (errno + inode) \<times> world" where
  "meta_stat p follow w =
     (case os_stat p follow w of
        Inl e \<Rightarrow> (Inl e, emit (MetaCall ''stat'' p follow) w)
      | Inr i \<Rightarrow> (Inr (inodes w i), emit (MetaCall ''stat'' p follow) w))"

definition utime :: "path \<Rightarrow> int \<times> int \<Rightarrow> bool \<Rightarrow> world \<Rightarrow> (errno + unit) \<times> world" where
  "utime p ns follow w =
     (case os_stat p follow w of
        Inl e \<Rightarrow> (Inl e, emit (MetaCall ''utime'' p follow) w)
      | Inr i \<Rightarrow>
          (Inr (), emit (MetaCall ''utime'' p follow)
             (w\<lparr>inodes := (inodes w)(i :=
                 (inodes w i)\<lparr>st_atime_ns := fst ns, st_mtime_ns := snd ns\<rparr>)\<rparr>)))"

definition chmod :: "host \<Rightarrow> path \<Rightarrow> nat \<Rightarrow> bool \<Rightarrow> world \<Rightarrow> (error + unit) \<times> world" where
  "chmod h p mode follow w =
     (if \<not> follow \<and> chmod_unimplemented h
      then (Inl NotImplementedError, emit (MetaCall ''chmod'' p follow) w)
      else (case os_stat p follow w of
              Inl e \<Rightarrow> (Inl (OSError e), emit (MetaCall ''chmod'' p follow) w)
            | Inr i \<Rightarrow>
                (Inr (), emit (MetaCall ''chmod'' p follow)
                   (w\<lparr>inodes := (inodes w)(i := (inodes w i)\<lparr>st_perm := mode\<rparr>)\<rparr>))))"

definition chflags :: "host \<Rightarrow> path \<Rightarrow> nat \<Rightarrow> bool \<Rightarrow> world \<Rightarrow> (errno + unit) \<times> world" where
  "chflags h p fl follow w =
     (case os_stat p follow w of
        Inl e \<Rightarrow> (Inl e, emit (MetaCall ''chflags'' p follow) w)
      | Inr i \<Rightarrow>
          (case chflags_err h i of
             Some e \<Rightarrow> (Inl e, emit (MetaCall ''chflags'' p follow) w)
           | None \<Rightarrow>
               (Inr (), emit (MetaCall ''chflags'' p follow)
                  (w\<lparr>inodes := (inodes w)(i := (inodes w i)\<lparr>st_flags := fl\<rparr>)\<rparr>))))"

definition listxattr :: "host \<Rightarrow> path \<Rightarrow> bool \<Rightarrow> world \<Rightarrow> (errno + string list) \<times> world" where
  "listxattr h p follow w =
     (case os_stat p follow w of
        Inl e \<Rightarrow> (Inl e, emit (MetaCall ''listxattr'' p follow) w)
      | Inr i \<Rightarrow>
          (case listxattr_err h i of
             Some e \<Rightarrow> (Inl e, emit (MetaCall ''listxattr'' p follow) w)
           | None \<Rightarrow> (Inr (map fst (xattrs (inodes w i))), emit (MetaCall ''listxattr'' p follow) w)))"

definition getxattr :: "host \<Rightarrow> path \<Rightarrow> string \<Rightarrow> bool \<Rightarrow> world \<Rightarrow> (errno + bytes) \<times> world" where
  "getxattr h p name follow w =
     (case os_stat p follow w of
        Inl e \<Rightarrow> (Inl e, emit (MetaCall ''getxattr'' p follow) w)
      | Inr i \<Rightarrow>
          (case getxattr_err h i name of
             Some e \<Rightarrow> (Inl e, emit (MetaCall ''getxattr'' p follow) w)
           | None \<Rightarrow>
               (case map_of (xattrs (inodes w i)) name of
                  None \<Rightarrow> (Inl ENODATA, emit (MetaCall ''getxattr'' p follow) w)
                | Some v \<Rightarrow> (Inr v, emit (MetaCall ''getxattr'' p follow) w))))"

definition setxattr ::
  "host \<Rightarrow> path \<Rightarrow> string \<Rightarrow> bytes \<Rightarrow> bool \<Rightarrow> world \<Rightarrow> (errno + unit) \<times> world" where
  "setxattr h p name v follow w =
     (case os_stat p follow w of
        Inl e \<Rightarrow> (Inl e, emit (MetaCall ''setxattr'' p follow) w)
      | Inr i \<Rightarrow>
          (case setxattr_err h i name of
             Some e \<Rightarrow> (Inl e, emit (MetaCall ''setxattr'' p follow) w)
           | None \<Rightarrow>
               (Inr (), emit (MetaCall ''setxattr'' p follow)
                  (w\<lparr>inodes := (inodes w)(i :=
                      (inodes w i)\<lparr>xattrs := AList.update name v (xattrs (inodes w i))\<rparr>)\<rparr>))))"

section \<open>The class \<^verbatim>\<open>File\<close>\<close>

record File =
  source_path :: path
  target_path :: "path option"

definition init :: "path \<Rightarrow> File" where
  "init source = \<lparr>source_path = source, target_path = None\<rparr>"

text \<open>
  \<^verbatim>\<open>_samefile\<close>, for a source path that is a string on a host with
  \<^verbatim>\<open>os.path.samefile\<close>: both paths are stat-ed, and any \<^verbatim>\<open>OSError\<close> gives False.
\<close>

definition samefile :: "File \<Rightarrow> path \<Rightarrow> world \<Rightarrow> bool" where
  "samefile self dst w =
     (case stat w (source_path self) of
        Inl e \<Rightarrow> False
      | Inr i \<Rightarrow> (case stat w dst of Inl e \<Rightarrow> False | Inr j \<Rightarrow> i = j))"

text \<open>
  \<^verbatim>\<open>copyfileobj\<close>: \<open>fsrc\<close> is the bytes still to be read, \<open>fdst\<close> the chunks
  written so far, one per call of \<^verbatim>\<open>write\<close>. A buffered \<^verbatim>\<open>read(length)\<close> of a regular
  file returns \<^verbatim>\<open>length\<close> bytes until fewer are left.
\<close>

function copyfileobj :: "bytes \<Rightarrow> bytes list \<Rightarrow> nat \<Rightarrow> bytes list" where
  "copyfileobj fsrc fdst len =
     (let buf = take len fsrc
      in if buf = [] then fdst else copyfileobj (drop len fsrc) (fdst @ [buf]) len)"
  by pat_completeness auto
termination
  by (relation "measure (\<lambda>(fsrc, fdst, len). length fsrc)") auto

declare copyfileobj.simps [simp del]

text \<open>\<^verbatim>\<open>_copyxattr\<close>: the loop over the names, then the method.\<close>

fun copyxattr_names ::
  "host \<Rightarrow> File \<Rightarrow> path \<Rightarrow> bool \<Rightarrow> string list \<Rightarrow> world \<Rightarrow> (error + unit) \<times> world" where
  "copyxattr_names h self dst follow [] w = (Inr (), w)"
| "copyxattr_names h self dst follow (name # rest) w =
     (case getxattr h (source_path self) name follow w of
        (Inl e, w1) \<Rightarrow>
          if e \<notin> {EPERM, ENOTSUP, ENODATA, EINVAL} then (Inl (OSError e), w1)
          else copyxattr_names h self dst follow rest w1
      | (Inr v, w1) \<Rightarrow>
          (case setxattr h dst name v follow w1 of
             (Inl e, w2) \<Rightarrow>
               if e \<notin> {EPERM, ENOTSUP, ENODATA, EINVAL} then (Inl (OSError e), w2)
               else copyxattr_names h self dst follow rest w2
           | (Inr u, w2) \<Rightarrow> copyxattr_names h self dst follow rest w2))"

definition copyxattr :: "host \<Rightarrow> File \<Rightarrow> path \<Rightarrow> bool \<Rightarrow> world \<Rightarrow> (error + unit) \<times> world" where
  "copyxattr h self dst follow w =
     (if os_has h ''listxattr'' then
        (case listxattr h (source_path self) follow w of
           (Inl e, w1) \<Rightarrow>
             if e \<notin> {ENOTSUP, ENODATA, EINVAL} then (Inl (OSError e), w1) else (Inr (), w1)
         | (Inr ns, w1) \<Rightarrow> copyxattr_names h self dst follow ns w1)
      else (Inr (), w))"

subsection \<open>\<^verbatim>\<open>copyfile\<close>\<close>

text \<open>The loop of lines 82 to 91 over \<^verbatim>\<open>[self.source_path, self.target_path]\<close>.\<close>

fun special_check :: "path list \<Rightarrow> world \<Rightarrow> error option" where
  "special_check [] w = None"
| "special_check (fn # fns) w =
     (case stat w fn of
        Inl e \<Rightarrow> special_check fns w
      | Inr i \<Rightarrow>
          if S_ISFIFO (inodes w i) then Some SpecialFileError else special_check fns w)"

text \<open>Lines 92 to 97; \<open>tp\<close> is the value of \<^verbatim>\<open>self.target_path\<close>.\<close>

definition transfer :: "host \<Rightarrow> File \<Rightarrow> path \<Rightarrow> bool \<Rightarrow> world \<Rightarrow> (error + unit) \<times> world" where
  "transfer h self tp follow_symlinks w =
     (if \<not> follow_symlinks \<and> islink w (source_path self) then
        (case readlink (source_path self) w of
           Inl e \<Rightarrow> (Inl (OSError e), w)
         | Inr t \<Rightarrow>
             (case symlink t tp w of
                (Inl e, w1) \<Rightarrow> (Inl (OSError e), w1)
              | (Inr u, w1) \<Rightarrow> (Inr (), w1)))
      else
        (case open_rb (source_path self) w of
           (Inl e, w1) \<Rightarrow> (Inl e, w1)
         | (Inr fsrc, w1) \<Rightarrow>
             (case open_wb h tp w1 of
                (Inl e, w2) \<Rightarrow> (Inl e, w2)
              | (Inr fdst, w2) \<Rightarrow>
                  (Inr (), set_data fdst (concat (copyfileobj (fread w2 fsrc) [] (16 * 1024))) w2))))"

text \<open>
  \<^verbatim>\<open>lookup(name)\<close> of lines 106 to 116: True when the function of \<^verbatim>\<open>os\<close> is called,
  False when \<^verbatim>\<open>_nop\<close> stands in for it.
\<close>

definition lookup :: "host \<Rightarrow> bool \<Rightarrow> string \<Rightarrow> bool" where
  "lookup h follow name =
     (if follow then os_has h name
      else (if os_has h name \<and> supports_follow_symlinks h name then True else False))"

definition meta_utime :: "host \<Rightarrow> path \<Rightarrow> inode \<Rightarrow> bool \<Rightarrow> world \<Rightarrow> (error + unit) \<times> world" where
  "meta_utime h dst st follow w =
     (if lookup h follow ''utime'' then
        (case utime dst (st_atime_ns st, st_mtime_ns st) follow w of
           (Inl e, w1) \<Rightarrow> (Inl (OSError e), w1)
         | (Inr u, w1) \<Rightarrow> (Inr (), w1))
      else (Inr (), w))"

definition meta_chmod :: "host \<Rightarrow> path \<Rightarrow> nat \<Rightarrow> bool \<Rightarrow> world \<Rightarrow> (error + unit) \<times> world" where
  "meta_chmod h dst mode follow w =
     (if lookup h follow ''chmod'' then
        (case chmod h dst mode follow w of
           (Inl e, w1) \<Rightarrow> if e = NotImplementedError then (Inr (), w1) else (Inl e, w1)
         | (Inr u, w1) \<Rightarrow> (Inr (), w1))
      else (Inr (), w))"

definition meta_chflags :: "host \<Rightarrow> path \<Rightarrow> inode \<Rightarrow> bool \<Rightarrow> world \<Rightarrow> (error + unit) \<times> world" where
  "meta_chflags h dst st follow w =
     (if has_st_flags h then
        (if lookup h follow ''chflags'' then
           (case chflags h dst (st_flags st) follow w of
              (Inl e, w1) \<Rightarrow>
                if e = EOPNOTSUPP \<or> e = ENOTSUP then (Inr (), w1) else (Inl (OSError e), w1)
            | (Inr u, w1) \<Rightarrow> (Inr (), w1))
         else (Inr (), w))
      else (Inr (), w))"

text \<open>
  Lines 99 to 136. When \<^verbatim>\<open>lookup("stat")\<close> is \<^verbatim>\<open>_nop\<close>, \<^verbatim>\<open>st\<close> is None and
  \<^verbatim>\<open>st.st_mode\<close> raises \<^verbatim>\<open>AttributeError\<close>.
\<close>

definition copy_metadata :: "host \<Rightarrow> File \<Rightarrow> path \<Rightarrow> bool \<Rightarrow> world \<Rightarrow> (error + unit) \<times> world" where
  "copy_metadata h self dst follow_symlinks w =
     (let follow = follow_symlinks \<or> \<not> (islink w (source_path self) \<and> islink w dst)
      in if \<not> lookup h follow ''stat'' then (Inl AttributeError, w)
         else
           (case meta_stat (source_path self) follow w of
              (Inl e, w1) \<Rightarrow> (Inl (OSError e), w1)
            | (Inr st, w1) \<Rightarrow>
                (case meta_utime h dst st follow w1 of
                   (Inl e, w2) \<Rightarrow> (Inl e, w2)
                 | (Inr u, w2) \<Rightarrow>
                     (case copyxattr h self dst follow w2 of
                        (Inl e, w3) \<Rightarrow> (Inl e, w3)
                      | (Inr u, w3) \<Rightarrow>
                          (case meta_chmod h dst (S_IMODE st) follow w3 of
                             (Inl e, w4) \<Rightarrow> (Inl e, w4)
                           | (Inr u, w4) \<Rightarrow> meta_chflags h dst st follow w4)))))"

text \<open>
  \<^verbatim>\<open>copyfile\<close> returns the outcome, the object (its field \<^verbatim>\<open>target_path\<close> is
  assigned first) and the world. The same-file check and the return value use the
  local \<^verbatim>\<open>dst\<close>, which line 78 may have replaced; the special-file check and the
  content transfer use \<^verbatim>\<open>self.target_path\<close>, the argument as it was passed.
  \<open>destination\<close> is lines 77 and 78.
\<close>

definition destination :: "world \<Rightarrow> File \<Rightarrow> path \<Rightarrow> path" where
  "destination w self dst0 =
     (if isdir w dst0 then join dst0 (basename (source_path self)) else dst0)"

definition copyfile ::
  "host \<Rightarrow> File \<Rightarrow> path \<Rightarrow> bool \<Rightarrow> bool \<Rightarrow> world \<Rightarrow> (error + path) \<times> File \<times> world" where
  "copyfile h self0 dst0 copy_meta follow_symlinks w =
     (let self = self0\<lparr>target_path := Some dst0\<rparr>;
          dst = destination w self dst0
      in if samefile self dst w then (Inl SameFileError, self, w)
         else
           (case special_check [source_path self, dst0] w of
              Some e \<Rightarrow> (Inl e, self, w)
            | None \<Rightarrow>
                (case transfer h self dst0 follow_symlinks w of
                   (Inl e, w1) \<Rightarrow> (Inl e, self, w1)
                 | (Inr u, w1) \<Rightarrow>
                     if copy_meta then
                       (case copy_metadata h self dst follow_symlinks w1 of
                          (Inl e, w2) \<Rightarrow> (Inl e, self, w2)
                        | (Inr u, w2) \<Rightarrow> (Inr dst, self, w2))
                     else (Inr dst, self, w1))))"

section \<open>Observations used to state the properties\<close>

text \<open>What \<^verbatim>\<open>open(p, 'rb').read()\<close> returns, when it returns.\<close>

definition contents :: "world \<Rightarrow> path \<Rightarrow> bytes option" where
  "contents w p =
     (case stat w p of
        Inl e \<Rightarrow> None
      | Inr i \<Rightarrow> (case kind (inodes w i) of Regular b \<Rightarrow> Some b | _ \<Rightarrow> None))"

text \<open>The events added to the trace between two worlds.\<close>

definition events_since :: "world \<Rightarrow> world \<Rightarrow> event list" where
  "events_since w w' = drop (length (trace w)) (trace w')"

definition is_read :: "event \<Rightarrow> bool" where
  "is_read ev = (case ev of OpenRead p \<Rightarrow> True | MetaCall name p fl \<Rightarrow> False)"

text \<open>
  What a call of the metadata phase may do: it leaves the names, the kind (and so the
  content) of every inode, the inode counter and the clock alone, and adds to the trace
  only metadata calls made with the given \<^verbatim>\<open>follow_symlinks\<close>.
\<close>

definition meta_step :: "bool \<Rightarrow> world \<Rightarrow> world \<Rightarrow> bool" where
  "meta_step follow w w' \<longleftrightarrow>
     names w' = names w \<and> next_ino w' = next_ino w \<and> now_ns w' = now_ns w \<and>
     (\<forall>i. kind (inodes w' i) = kind (inodes w i)) \<and>
     (\<exists>evs. trace w' = trace w @ evs \<and>
        (\<forall>ev \<in> set evs. \<exists>name p. ev = MetaCall name p follow))"

text \<open>
  The error that copying the attribute \<open>n\<close> from inode \<open>i\<close> to inode \<open>j\<close> meets on this
  host, if any: \<^verbatim>\<open>getxattr\<close> (line 65) is tried first, then \<^verbatim>\<open>setxattr\<close> (line 66).
\<close>

definition attr_err :: "host \<Rightarrow> nat \<Rightarrow> nat \<Rightarrow> string \<Rightarrow> errno option" where
  "attr_err h i j n =
     (case getxattr_err h i n of Some e \<Rightarrow> Some e | None \<Rightarrow> setxattr_err h j n)"

section \<open>A concrete host and world\<close>

text \<open>
  A small world for evaluating the model: a regular file \<^verbatim>\<open>/a\<close> of three bytes with two
  extended attributes, a regular file \<^verbatim>\<open>/b\<close>, an empty file \<^verbatim>\<open>/e\<close>, a directory
  \<^verbatim>\<open>/d\<close>, a named pipe \<^verbatim>\<open>/p\<close>, a symbolic link \<^verbatim>\<open>/l\<close> to \<^verbatim>\<open>/a\<close> and a symbolic
  link \<^verbatim>\<open>/loop\<close> to itself. The host is like Linux: no \<^verbatim>\<open>chflags\<close>, and \<^verbatim>\<open>chmod\<close>
  not among \<^verbatim>\<open>os.supports_follow_symlinks\<close>.
\<close>

definition mk_inode :: "kind \<Rightarrow> (string \<times> bytes) list \<Rightarrow> inode" where
  "mk_inode k xs =
     \<lparr>kind = k, st_perm = 420, st_atime_ns = 100, st_mtime_ns = 200, xattrs = xs, st_flags = 0\<rparr>"

definition demo_world :: world where
  "demo_world =
     \<lparr>names = map_of [(''/'', 0), (''/a'', 1), (''/b'', 2), (''/d'', 3), (''/p'', 4),
                       (''/l'', 5), (''/loop'', 6), (''/e'', 7)],
      inodes = (\<lambda>i. if i = 1 then mk_inode (Regular [1, 2, 3]) [(''user.a'', [7]), (''user.b'', [8])]
                    else if i = 2 then mk_inode (Regular [9]) []
                    else if i = 4 then mk_inode Fifo []
                    else if i = 5 then mk_inode (Symlink ''/a'') []
                    else if i = 6 then mk_inode (Symlink ''/loop'') []
                    else if i = 7 then mk_inode (Regular []) []
                    else mk_inode Directory []),
      next_ino = 8, now_ns = 1000, trace = []\<rparr>"

definition demo_host :: host where
  "demo_host =
     \<lparr>os_has = (\<lambda>n. n \<in> set [''stat'', ''utime'', ''chmod'', ''listxattr'']),
      supports_follow_symlinks = (\<lambda>n. n \<in> set [''stat'', ''utime'']),
      has_st_flags = False, file_create_perm = 420, chmod_unimplemented = False,
      listxattr_err = (\<lambda>i. None), getxattr_err = (\<lambda>i n. None),
      setxattr_err = (\<lambda>i n. if n = ''user.a'' then Some EPERM else None),
      chflags_err = (\<lambda>i. None)\<rparr>"

text \<open>The same host, with extended attributes not supported by the file system.\<close>

definition nolist_host :: host where
  "nolist_host = demo_host\<lparr>listxattr_err := (\<lambda>i. Some EOPNOTSUPP)\<rparr>"

section \<open>Lemmas\<close>

subsection \<open>The copy loop\<close>

lemma copyfileobj_stop: "take len fsrc = [] \<Longrightarrow> copyfileobj fsrc fdst len = fdst"
  by (subst copyfileobj.simps) simp

lemma copyfileobj_step:
  "take len fsrc \<noteq> [] \<Longrightarrow>
     copyfileobj fsrc fdst len = copyfileobj (drop len fsrc) (fdst @ [take len fsrc]) len"
  by (subst copyfileobj.simps) (simp add: Let_def)

lemma copyfileobj_concat:
  "0 < len \<Longrightarrow> concat (copyfileobj fsrc fdst len) = concat fdst @ fsrc"
proof (induction fsrc fdst len rule: copyfileobj.induct)
  case (1 fsrc fdst len)
  show ?case
  proof (cases "take len fsrc = []")
    case True
    with "1.prems" have "fsrc = []" by simp
    with True show ?thesis by (simp add: copyfileobj_stop)
  next
    case False
    have "concat (copyfileobj fsrc fdst len) =
            concat (copyfileobj (drop len fsrc) (fdst @ [take len fsrc]) len)"
      using False by (simp add: copyfileobj_step)
    also have "\<dots> = concat (fdst @ [take len fsrc]) @ drop len fsrc"
      using "1.IH" [OF refl False "1.prems"] .
    finally show ?thesis by simp
  qed
qed

lemma copyfileobj_sizes:
  "0 < len \<Longrightarrow> \<forall>c \<in> set fdst. length c = len \<Longrightarrow>
     (\<forall>c \<in> set (copyfileobj fsrc fdst len). 0 < length c \<and> length c \<le> len) \<and>
     (\<forall>c \<in> set (butlast (copyfileobj fsrc fdst len)). length c = len)"
proof (induction fsrc fdst len rule: copyfileobj.induct)
  case (1 fsrc fdst len)
  show ?case
  proof (cases "take len fsrc = []")
    case True
    then have "copyfileobj fsrc fdst len = fdst" by (rule copyfileobj_stop)
    with "1.prems" show ?thesis by (auto dest: in_set_butlastD)
  next
    case False
    note eq = copyfileobj_step [OF False, of fdst]
    show ?thesis
    proof (cases "length fsrc \<le> len")
      case True
      then have "copyfileobj (drop len fsrc) (fdst @ [take len fsrc]) len = fdst @ [take len fsrc]"
        by (simp add: copyfileobj_stop)
      with eq have "copyfileobj fsrc fdst len = fdst @ [take len fsrc]" by simp
      with "1.prems" False True show ?thesis by auto
    next
      case long: False
      then have "length (take len fsrc) = len" by simp
      with "1.prems"(2) have "\<forall>c \<in> set (fdst @ [take len fsrc]). length c = len"
        by simp
      from "1.IH" [OF refl False "1.prems"(1) this] show ?thesis
        unfolding eq .
    qed
  qed
qed

subsection \<open>Resolution and the metadata calls\<close>

lemma resolve_cong:
  assumes "names w' = names w"
    and "\<And>i t. (kind (inodes w' i) = Symlink t) = (kind (inodes w i) = Symlink t)"
  shows "resolve w' n p = resolve w n p"
proof (induction n arbitrary: p)
  case 0
  show ?case
  proof (cases "names w p")
    case None
    with assms(1) show ?thesis by simp
  next
    case (Some i)
    show ?thesis
    proof (cases "\<exists>t. kind (inodes w i) = Symlink t")
      case True
      then obtain t where "kind (inodes w i) = Symlink t" ..
      moreover from this assms(2) have "kind (inodes w' i) = Symlink t" by simp
      ultimately show ?thesis using Some assms(1) by simp
    next
      case False
      moreover from False assms(2) have "\<not> (\<exists>t. kind (inodes w' i) = Symlink t)" by simp
      ultimately show ?thesis using Some assms(1)
        by (cases "kind (inodes w i)"; cases "kind (inodes w' i)") simp_all
    qed
  qed
next
  case (Suc n)
  show ?case
  proof (cases "names w p")
    case None
    with assms(1) show ?thesis by simp
  next
    case (Some i)
    show ?thesis
    proof (cases "\<exists>t. kind (inodes w i) = Symlink t")
      case True
      then obtain t where "kind (inodes w i) = Symlink t" ..
      moreover from this assms(2) have "kind (inodes w' i) = Symlink t" by simp
      ultimately show ?thesis using Some assms(1) Suc.IH by simp
    next
      case False
      moreover from False assms(2) have "\<not> (\<exists>t. kind (inodes w' i) = Symlink t)" by simp
      ultimately show ?thesis using Some assms(1)
        by (cases "kind (inodes w i)"; cases "kind (inodes w' i)") simp_all
    qed
  qed
qed

lemma stat_cong:
  assumes "names w' = names w"
    and "\<And>i t. (kind (inodes w' i) = Symlink t) = (kind (inodes w i) = Symlink t)"
  shows "stat w' p = stat w p"
  unfolding stat_def resolve_cong [OF assms] ..

lemma meta_step_refl: "meta_step follow w w"
  by (simp add: meta_step_def)

lemma meta_step_trans:
  "meta_step follow w w1 \<Longrightarrow> meta_step follow w1 w2 \<Longrightarrow> meta_step follow w w2"
  unfolding meta_step_def by (elim conjE exE) (simp, fastforce)

lemma meta_step_stat: "meta_step follow w w' \<Longrightarrow> stat w' p = stat w p"
  by (rule stat_cong) (simp_all add: meta_step_def)

lemma meta_step_lstat: "meta_step follow w w' \<Longrightarrow> lstat w' p = lstat w p"
  by (simp add: lstat_def meta_step_def)

lemma meta_step_os_stat: "meta_step follow w w' \<Longrightarrow> os_stat p fl w' = os_stat p fl w"
  by (simp add: os_stat_def meta_step_stat meta_step_lstat)

lemma meta_step_islink: "meta_step follow w w' \<Longrightarrow> islink w' p = islink w p"
  by (auto simp: islink_def lstat_def meta_step_def split: option.splits kind.splits)

lemma meta_step_readlink: "meta_step follow w w' \<Longrightarrow> readlink p w' = readlink p w"
  by (auto simp: readlink_def meta_step_def split: option.splits kind.splits)

lemma meta_step_kind: "meta_step follow w w' \<Longrightarrow> kind (inodes w' i) = kind (inodes w i)"
  by (simp add: meta_step_def)

lemma meta_step_contents: "meta_step follow w w' \<Longrightarrow> contents w' p = contents w p"
  by (simp add: contents_def meta_step_stat meta_step_kind split: sum.splits)

lemma meta_step_emit: "meta_step follow w (emit (MetaCall name p follow) w)"
  by (simp add: meta_step_def emit_def)

lemma meta_stat_step: "meta_stat p follow w = (r, w') \<Longrightarrow> meta_step follow w w'"
  by (auto simp: meta_stat_def meta_step_def emit_def split: sum.splits)

lemma utime_step: "utime p ns follow w = (r, w') \<Longrightarrow> meta_step follow w w'"
  by (auto simp: utime_def meta_step_def emit_def split: sum.splits)

lemma chmod_step: "chmod h p mode follow w = (r, w') \<Longrightarrow> meta_step follow w w'"
  by (auto simp: chmod_def meta_step_def emit_def split: sum.splits if_splits)

lemma chflags_step: "chflags h p fl follow w = (r, w') \<Longrightarrow> meta_step follow w w'"
  by (auto simp: chflags_def meta_step_def emit_def split: sum.splits option.splits)

lemma listxattr_step: "listxattr h p follow w = (r, w') \<Longrightarrow> meta_step follow w w'"
  by (auto simp: listxattr_def meta_step_def emit_def split: sum.splits option.splits)

lemma getxattr_step: "getxattr h p name follow w = (r, w') \<Longrightarrow> meta_step follow w w'"
  by (auto simp: getxattr_def meta_step_def emit_def split: sum.splits option.splits)

lemma setxattr_step: "setxattr h p name v follow w = (r, w') \<Longrightarrow> meta_step follow w w'"
  by (auto simp: setxattr_def meta_step_def emit_def split: sum.splits option.splits)

lemma copyxattr_names_step:
  "copyxattr_names h self dst follow ns w = (r, w') \<Longrightarrow> meta_step follow w w'"
proof (induction ns arbitrary: w)
  case Nil
  then show ?case by (simp add: meta_step_refl)
next
  case (Cons name rest)
  obtain rg w1 where g: "getxattr h (source_path self) name follow w = (rg, w1)"
    by (cases "getxattr h (source_path self) name follow w")
  note s1 = getxattr_step [OF g]
  show ?case
  proof (cases rg)
    case (Inl e)
    with Cons.prems g have "w' = w1 \<or> copyxattr_names h self dst follow rest w1 = (r, w')"
      by (auto split: if_splits)
    then show ?thesis using s1 Cons.IH meta_step_trans by blast
  next
    case (Inr v)
    obtain rs w2 where s: "setxattr h dst name v follow w1 = (rs, w2)"
      by (cases "setxattr h dst name v follow w1")
    note s2 = meta_step_trans [OF s1 setxattr_step [OF s]]
    from Cons.prems g Inr s
    have "w' = w2 \<or> copyxattr_names h self dst follow rest w2 = (r, w')"
      by (cases rs) (auto split: if_splits)
    then show ?thesis using s2 Cons.IH meta_step_trans by blast
  qed
qed

lemma copyxattr_step: "copyxattr h self dst follow w = (r, w') \<Longrightarrow> meta_step follow w w'"
  unfolding copyxattr_def
  by (auto split: if_splits prod.splits sum.splits
      intro: meta_step_refl listxattr_step meta_step_trans [OF listxattr_step copyxattr_names_step])

lemma meta_utime_step: "meta_utime h dst st follow w = (r, w') \<Longrightarrow> meta_step follow w w'"
  unfolding meta_utime_def
  by (auto split: if_splits prod.splits sum.splits intro: meta_step_refl utime_step)

lemma meta_chmod_step: "meta_chmod h dst mode follow w = (r, w') \<Longrightarrow> meta_step follow w w'"
  unfolding meta_chmod_def
  by (auto split: if_splits prod.splits sum.splits intro: meta_step_refl chmod_step)

lemma meta_chflags_step: "meta_chflags h dst st follow w = (r, w') \<Longrightarrow> meta_step follow w w'"
  unfolding meta_chflags_def
  by (auto split: if_splits prod.splits sum.splits intro: meta_step_refl chflags_step)

subsection \<open>Which errors the later phases raise\<close>

lemma transfer_error:
  "transfer h self tp follow_symlinks w = (Inl e, w') \<Longrightarrow> e = Hangs \<or> (\<exists>n. e = OSError n)"
  unfolding transfer_def open_rb_def open_wb_def
  by (auto split: if_splits sum.splits prod.splits kind.splits target.splits option.splits)

lemma copyxattr_names_error:
  "copyxattr_names h self dst follow ns w = (Inl e, w') \<Longrightarrow> \<exists>n. e = OSError n"
  by (induction ns arbitrary: w) (auto split: prod.splits sum.splits if_splits)

lemma copyxattr_error:
  "copyxattr h self dst follow w = (Inl e, w') \<Longrightarrow> \<exists>n. e = OSError n"
  unfolding copyxattr_def
  by (auto split: if_splits prod.splits sum.splits dest: copyxattr_names_error)

lemma meta_utime_error:
  "meta_utime h dst st follow w = (Inl e, w') \<Longrightarrow> \<exists>n. e = OSError n"
  unfolding meta_utime_def by (auto split: if_splits prod.splits sum.splits)

lemma meta_chmod_error:
  "meta_chmod h dst mode follow w = (Inl e, w') \<Longrightarrow> \<exists>n. e = OSError n"
  unfolding meta_chmod_def chmod_def by (auto split: if_splits prod.splits sum.splits)

lemma meta_chflags_error:
  "meta_chflags h dst st follow w = (Inl e, w') \<Longrightarrow> \<exists>n. e = OSError n"
  unfolding meta_chflags_def by (auto split: if_splits prod.splits sum.splits)

lemma copy_metadata_error:
  "copy_metadata h self dst follow_symlinks w = (Inl e, w') \<Longrightarrow>
     e = AttributeError \<or> (\<exists>n. e = OSError n)"
  unfolding copy_metadata_def Let_def
  by (auto split: if_splits prod.splits sum.splits
      dest: meta_utime_error copyxattr_error meta_chmod_error meta_chflags_error)

lemma copyfile_validation_error:
  assumes "copyfile h self dst copy_meta follow_symlinks w = (Inl e, self', w')"
    and "e = SameFileError \<or> e = SpecialFileError"
  shows "w' = w"
  using assms unfolding copyfile_def Let_def
  by (auto split: if_splits option.splits prod.splits sum.splits
      dest: transfer_error copy_metadata_error)

lemma copyfile_target_path:
  "copyfile h self dst copy_meta follow_symlinks w = (r, self', w') \<Longrightarrow>
     self' = self\<lparr>target_path := Some dst\<rparr>"
  unfolding copyfile_def Let_def
  by (auto split: if_splits option.splits prod.splits sum.splits)

section \<open>The claims\<close>

subsection \<open>C3: copying a file onto itself\<close>

text \<open>
  C3, as amended. When the path \<open>A\<close> resolves to an existing file that is not a
  directory, \<^verbatim>\<open>copyfile(A, A)\<close> raises \<^verbatim>\<open>SameFileError\<close>, and the world it leaves is the
  world it found: nothing was written and nothing was opened. (The object's field
  \<^verbatim>\<open>target_path\<close> is assigned all the same.)
\<close>

theorem copyfile_same_path:
  assumes "stat w (source_path self) = Inr i" and "kind (inodes w i) \<noteq> Directory"
  shows "copyfile h self (source_path self) copy_meta follow_symlinks w =
           (Inl SameFileError, self\<lparr>target_path := Some (source_path self)\<rparr>, w)"
proof -
  let ?self = "self\<lparr>target_path := Some (source_path self)\<rparr>"
  from assms have "\<not> isdir w (source_path self)" by (simp add: isdir_def)
  then have d: "destination w ?self (source_path self) = source_path self"
    by (simp add: destination_def)
  from assms(1) have "samefile ?self (source_path self) w"
    by (simp add: samefile_def)
  with d show ?thesis by (simp add: copyfile_def Let_def)
qed

theorem copyfile_same_path_witness:
  "stat demo_world ''/a'' = Inr 1 \<and> kind (inodes demo_world 1) \<noteq> Directory \<and>
   copyfile demo_host (init ''/a'') ''/a'' False True demo_world =
     (Inl SameFileError, \<lparr>source_path = ''/a'', target_path = Some ''/a''\<rparr>, demo_world)"
proof -
  have s: "stat demo_world (source_path (init ''/a'')) = Inr 1" by code_simp
  have k: "kind (inodes demo_world 1) \<noteq> Directory" by code_simp
  from copyfile_same_path [OF s k, of demo_host False True] s k show ?thesis
    by (simp add: init_def)
qed

text \<open>
  The claim as stated, for every path, fails: a directory copied onto itself is sent
  into itself (line 78), passes the same-file check and fails in \<^verbatim>\<open>open\<close>; a path that
  names nothing makes \<^verbatim>\<open>_samefile\<close> answer False (lines 34 and 35) and fails in
  \<^verbatim>\<open>open\<close> too.
\<close>

theorem copyfile_same_path_counterexample:
  "stat demo_world ''/d'' = Inr 3 \<and>
   fst (copyfile demo_host (init ''/d'') ''/d'' False True demo_world) = Inl (OSError EISDIR) \<and>
   stat demo_world ''/zz'' = Inl ENOENT \<and>
   fst (copyfile demo_host (init ''/zz'') ''/zz'' False True demo_world) = Inl (OSError ENOENT)"
  by code_simp

subsection \<open>C4: a named pipe as the source\<close>

text \<open>
  C4, as amended. When the source resolves to a named pipe, \<^verbatim>\<open>copyfile\<close> raises
  \<^verbatim>\<open>SpecialFileError\<close> for every destination that is not the same file as the source,
  and \<^verbatim>\<open>SameFileError\<close> for one that is; in both cases the world is left as it was
  found, so the destination is neither created nor modified.
\<close>

theorem copyfile_fifo_source:
  assumes "stat w (source_path self) = Inr i" and "kind (inodes w i) = Fifo"
  shows "copyfile h self B copy_meta follow_symlinks w =
           (Inl (if samefile self (destination w self B) w then SameFileError
                 else SpecialFileError),
            self\<lparr>target_path := Some B\<rparr>, w)"
proof -
  let ?self = "self\<lparr>target_path := Some B\<rparr>"
  have s: "samefile ?self p w = samefile self p w" for p
    by (simp add: samefile_def)
  have d: "destination w ?self B = destination w self B"
    by (simp add: destination_def)
  from assms have "special_check [source_path ?self, B] w = Some SpecialFileError"
    by (simp add: S_ISFIFO_def)
  then show ?thesis by (simp add: copyfile_def Let_def s d)
qed

theorem copyfile_fifo_source_witness:
  "stat demo_world ''/p'' = Inr 4 \<and> kind (inodes demo_world 4) = Fifo \<and>
   \<not> samefile (init ''/p'') (destination demo_world (init ''/p'') ''/n'') demo_world \<and>
   copyfile demo_host (init ''/p'') ''/n'' False True demo_world =
     (Inl SpecialFileError, \<lparr>source_path = ''/p'', target_path = Some ''/n''\<rparr>, demo_world)"
proof -
  have s: "stat demo_world (source_path (init ''/p'')) = Inr 4" by code_simp
  have k: "kind (inodes demo_world 4) = Fifo" by code_simp
  have n: "\<not> samefile (init ''/p'') (destination demo_world (init ''/p'') ''/n'') demo_world"
    by code_simp
  from copyfile_fifo_source [OF s k, of demo_host "''/n''" False True] s k n show ?thesis
    by (simp add: init_def)
qed

text \<open>
  The claim as stated, for every destination, fails where the destination is the pipe
  itself: the same-file check of line 80 comes first.
\<close>

theorem copyfile_fifo_source_counterexample:
  "stat demo_world ''/p'' = Inr 4 \<and> kind (inodes demo_world 4) = Fifo \<and>
   fst (copyfile demo_host (init ''/p'') ''/p'' False True demo_world) = Inl SameFileError"
  by code_simp

subsection \<open>C10: the field \<^verbatim>\<open>target_path\<close>\<close>

text \<open>
  C10. \<^verbatim>\<open>copyfile\<close> assigns the destination argument, as passed, to
  \<^verbatim>\<open>self.target_path\<close> whatever the outcome; and when the outcome is \<^verbatim>\<open>SameFileError\<close>
  or \<^verbatim>\<open>SpecialFileError\<close> the world is unchanged, so the field has been assigned
  although nothing happened in the file system.
\<close>

theorem copyfile_target_path_assigned:
  "(case copyfile h self dst copy_meta follow_symlinks w of (r, self', w') \<Rightarrow>
      target_path self' = Some dst \<and> source_path self' = source_path self \<and>
      (r = Inl SameFileError \<or> r = Inl SpecialFileError \<longrightarrow> w' = w))"
proof -
  obtain r self' w' where c: "copyfile h self dst copy_meta follow_symlinks w = (r, self', w')"
    by (cases "copyfile h self dst copy_meta follow_symlinks w")
  from copyfile_target_path [OF c] have "target_path self' = Some dst"
    and "source_path self' = source_path self" by simp_all
  moreover have "w' = w" if "r = Inl SameFileError \<or> r = Inl SpecialFileError"
    using that c copyfile_validation_error by blast
  ultimately show ?thesis using c by simp
qed

theorem copyfile_target_path_assigned_witness:
  "target_path (init ''/a'') = None \<and>
   copyfile demo_host (init ''/a'') ''/a'' False True demo_world =
     (Inl SameFileError, \<lparr>source_path = ''/a'', target_path = Some ''/a''\<rparr>, demo_world) \<and>
   fst (copyfile demo_host (init ''/a'') ''/p'' False True demo_world) = Inl SpecialFileError \<and>
   fst (snd (copyfile demo_host (init ''/a'') ''/p'' False True demo_world)) =
     \<lparr>source_path = ''/a'', target_path = Some ''/p''\<rparr> \<and>
   snd (snd (copyfile demo_host (init ''/a'') ''/p'' False True demo_world)) = demo_world"
proof -
  have a: "fst (copyfile demo_host (init ''/a'') ''/a'' False True demo_world) = Inl SameFileError"
    by code_simp
  have p: "fst (copyfile demo_host (init ''/a'') ''/p'' False True demo_world) = Inl SpecialFileError"
    by code_simp
  have i: "source_path (init ''/a'') = ''/a''" "target_path (init ''/a'') = None"
    by (simp_all add: init_def)
  from copyfile_target_path_assigned [where h = demo_host and self = "init ''/a''" and dst = "''/a''"
      and copy_meta = False and follow_symlinks = True and w = demo_world] a i
  have 1: "copyfile demo_host (init ''/a'') ''/a'' False True demo_world =
     (Inl SameFileError, \<lparr>source_path = ''/a'', target_path = Some ''/a''\<rparr>, demo_world)"
    by (cases "copyfile demo_host (init ''/a'') ''/a'' False True demo_world") auto
  from copyfile_target_path_assigned [where h = demo_host and self = "init ''/a''" and dst = "''/p''"
      and copy_meta = False and follow_symlinks = True and w = demo_world] p i
  have 2: "copyfile demo_host (init ''/a'') ''/p'' False True demo_world =
     (Inl SpecialFileError, \<lparr>source_path = ''/a'', target_path = Some ''/p''\<rparr>, demo_world)"
    by (cases "copyfile demo_host (init ''/a'') ''/p'' False True demo_world") auto
  from 1 2 i show ?thesis by simp
qed

subsection \<open>C1: a directory as the destination\<close>

text \<open>
  C1 does not hold of the code. With \<^verbatim>\<open>/a\<close> a regular file and \<^verbatim>\<open>/d\<close> an existing
  directory, \<^verbatim>\<open>copyfile\<close> computes \<^verbatim>\<open>/d/a\<close> and then opens \<^verbatim>\<open>self.target_path\<close>, the
  directory itself, for writing: it raises \<^verbatim>\<open>IsADirectoryError\<close> and no file appears at
  \<^verbatim>\<open>/d/a\<close>.
\<close>

theorem copyfile_into_directory_fails:
  "contents demo_world ''/a'' = Some [1, 2, 3] \<and> isdir demo_world ''/d'' \<and>
   destination demo_world (init ''/a'') ''/d'' = ''/d/a'' \<and>
   fst (copyfile demo_host (init ''/a'') ''/d'' False True demo_world) = Inl (OSError EISDIR) \<and>
   names (snd (snd (copyfile demo_host (init ''/a'') ''/d'' False True demo_world))) ''/d/a'' = None"
  by code_simp

subsection \<open>C2: the content of a regular file\<close>

lemma stat_resolve: "stat w p = Inr i \<Longrightarrow> resolve w maxsymlinks p = Inr (Existing i)"
  by (auto simp: stat_def split: sum.splits target.splits)

lemma stat_emit [simp]: "stat (emit ev w) p = stat w p"
  by (rule stat_cong) (simp_all add: emit_def)

lemma resolve_emit [simp]: "resolve (emit ev w) n p = resolve w n p"
  by (rule resolve_cong) (simp_all add: emit_def)

lemma inodes_emit [simp]: "inodes (emit ev w) = inodes w"
  by (simp add: emit_def)

lemma stat_set_data:
  assumes "kind (inodes w j) = Regular b"
  shows "stat (set_data j c w) p = stat w p"
  by (rule stat_cong) (use assms in \<open>auto simp: set_data_def\<close>)

lemma kind_set_data:
  "kind (inodes (set_data j c w) i) = (if i = j then Regular c else kind (inodes w i))"
  by (simp add: set_data_def)

lemma transfer_regular:
  assumes "stat w (source_path self) = Inr i" and "kind (inodes w i) = Regular a"
    and "stat w B = Inr j" and "kind (inodes w j) = Regular b" and "i \<noteq> j"
  shows "transfer h self B True w =
           (Inr (), set_data j (concat (copyfileobj a [] (16 * 1024)))
                      (set_data j [] (emit (OpenRead (source_path self)) w)))"
proof -
  let ?w1 = "emit (OpenRead (source_path self)) w"
  from assms(1,2) have r: "open_rb (source_path self) w = (Inr i, ?w1)"
    by (simp add: open_rb_def)
  from stat_resolve [OF assms(3)] assms(4)
  have o: "open_wb h B ?w1 = (Inr j, set_data j [] ?w1)"
    by (simp add: open_wb_def)
  from assms(2,5) have f: "fread (set_data j [] ?w1) i = a"
    by (simp add: fread_def kind_set_data)
  show ?thesis by (simp add: transfer_def r o f)
qed

lemma contents_after_transfer:
  assumes "stat w p = Inr i" and "kind (inodes w j) = Regular b"
  shows "contents (set_data j c (set_data j [] (emit ev w))) p =
           (if i = j then Some c else contents w p)"
proof -
  let ?w1 = "emit ev w"
  let ?w2 = "set_data j [] ?w1"
  from assms(2) have k1: "kind (inodes ?w1 j) = Regular b" by simp
  have k2: "kind (inodes ?w2 j) = Regular []" by (simp add: kind_set_data)
  have "stat (set_data j c ?w2) p = stat w p"
    by (simp add: stat_set_data [OF k2] stat_set_data [OF k1])
  with assms(1) show ?thesis
    by (simp add: contents_def kind_set_data)
qed

lemma samefile_target [simp]: "samefile (self\<lparr>target_path := x\<rparr>) dst w = samefile self dst w"
  by (simp add: samefile_def)

lemma destination_target [simp]:
  "destination w (self\<lparr>target_path := x\<rparr>) dst = destination w self dst"
  by (simp add: destination_def)

lemma transfer_target [simp]:
  "transfer h (self\<lparr>target_path := x\<rparr>) tp fs w = transfer h self tp fs w"
  by (simp add: transfer_def)

lemma copyxattr_names_target [simp]:
  "copyxattr_names h (self\<lparr>target_path := x\<rparr>) dst follow ns w =
     copyxattr_names h self dst follow ns w"
  by (induction ns arbitrary: w) (simp_all split: prod.splits sum.splits)

lemma copyxattr_target [simp]:
  "copyxattr h (self\<lparr>target_path := x\<rparr>) dst follow w = copyxattr h self dst follow w"
  by (simp add: copyxattr_def cong: prod.case_cong sum.case_cong)

lemma copy_metadata_target [simp]:
  "copy_metadata h (self\<lparr>target_path := x\<rparr>) dst fs w = copy_metadata h self dst fs w"
  by (simp add: copy_metadata_def Let_def cong: prod.case_cong sum.case_cong if_cong)

lemma copyfile_validated:
  assumes "\<not> samefile self (destination w self dst) w"
    and "special_check [source_path self, dst] w = None"
  shows "copyfile h self dst copy_meta fs w =
           (case transfer h self dst fs w of
              (Inl e, w1) \<Rightarrow> (Inl e, self\<lparr>target_path := Some dst\<rparr>, w1)
            | (Inr u, w1) \<Rightarrow>
                if copy_meta then
                  (case copy_metadata h self (destination w self dst) fs w1 of
                     (Inl e, w2) \<Rightarrow> (Inl e, self\<lparr>target_path := Some dst\<rparr>, w2)
                   | (Inr u, w2) \<Rightarrow>
                       (Inr (destination w self dst), self\<lparr>target_path := Some dst\<rparr>, w2))
                else (Inr (destination w self dst), self\<lparr>target_path := Some dst\<rparr>, w1))"
  using assms
  by (simp add: copyfile_def Let_def del: special_check.simps
      cong: prod.case_cong sum.case_cong if_cong)

lemma copy_metadata_step:
  "copy_metadata h self dst fs w = (r, w') \<Longrightarrow>
     meta_step (fs \<or> \<not> (islink w (source_path self) \<and> islink w dst)) w w'"
  unfolding copy_metadata_def Let_def
  by (auto split: if_splits prod.splits sum.splits
      intro: meta_step_refl meta_stat_step
        meta_step_trans [OF meta_stat_step meta_utime_step]
        meta_step_trans [OF meta_step_trans [OF meta_stat_step meta_utime_step] copyxattr_step]
        meta_step_trans [OF meta_step_trans [OF meta_step_trans [OF meta_stat_step meta_utime_step] copyxattr_step] meta_chmod_step]
        meta_step_trans [OF meta_step_trans [OF meta_step_trans [OF meta_step_trans [OF meta_stat_step meta_utime_step] copyxattr_step] meta_chmod_step] meta_chflags_step])

text \<open>
  C2. Let the source resolve to a regular file with bytes \<open>a\<close> and the destination
  \<open>B\<close> to another regular file. After \<^verbatim>\<open>copyfile\<close> with \<^verbatim>\<open>follow_symlinks\<close> true, reading
  \<open>B\<close> gives \<open>a\<close> and reading the source still gives \<open>a\<close>; without \<^verbatim>\<open>copy_meta\<close> the
  call returns \<open>B\<close>. The bytes written are the chunks \<^verbatim>\<open>copyfileobj\<close> reads, in order:
  every chunk is non-empty and at most 16384 bytes long, and every chunk but the last is
  exactly 16384 bytes long; an empty source gives no chunk and an empty destination.
  (Input and output errors of the host, such as a full disk, are outside the model.)
\<close>

theorem copyfile_copies_content:
  assumes "stat w (source_path self) = Inr i" and "kind (inodes w i) = Regular a"
    and "stat w B = Inr j" and "kind (inodes w j) = Regular b" and "i \<noteq> j"
  shows "(case copyfile h self B copy_meta True w of (r, self', w') \<Rightarrow>
            contents w' B = Some a \<and> contents w' (source_path self) = Some a \<and>
            (\<not> copy_meta \<longrightarrow> r = Inr B) \<and>
            contents w' B = Some (concat (copyfileobj a [] (16 * 1024))) \<and>
            (\<forall>c \<in> set (copyfileobj a [] (16 * 1024)). 0 < length c \<and> length c \<le> 16384) \<and>
            (\<forall>c \<in> set (butlast (copyfileobj a [] (16 * 1024))). length c = 16384) \<and>
            (a = [] \<longrightarrow> copyfileobj a [] (16 * 1024) = []))"
proof -
  let ?self' = "self\<lparr>target_path := Some B\<rparr>"
  let ?cs = "copyfileobj a [] (16 * 1024)"
  let ?w3 = "set_data j (concat ?cs) (set_data j [] (emit (OpenRead (source_path self)) w))"
  have cat: "concat ?cs = a"
    using copyfileobj_concat [of "16 * 1024" a "[]"] by simp
  have sizes: "\<forall>c \<in> set ?cs. 0 < length c \<and> length c \<le> 16384"
    and full: "\<forall>c \<in> set (butlast ?cs). length c = 16384"
    using copyfileobj_sizes [of "16 * 1024" "[]" a] by simp_all
  have empty: "a = [] \<longrightarrow> ?cs = []"
    by (simp add: copyfileobj_stop)
  from assms(3,4) have "\<not> isdir w B" by (simp add: isdir_def)
  then have d: "destination w self B = B" by (simp add: destination_def)
  from assms(1,3,5) have ns: "\<not> samefile self (destination w self B) w"
    by (simp add: samefile_def d)
  from assms(1-4) have sc: "special_check [source_path self, B] w = None"
    by (simp add: S_ISFIFO_def)
  have tr: "transfer h self B True w = (Inr (), ?w3)"
    using transfer_regular [OF assms, of h] by simp
  have cB: "contents ?w3 B = Some a"
    using contents_after_transfer [OF assms(3,4)] cat by simp
  have cA: "contents ?w3 (source_path self) = Some a"
    using contents_after_transfer [OF assms(1,4)] assms(1,2,5) by (simp add: contents_def)
  note cf = copyfile_validated [OF ns sc, of h copy_meta True, unfolded tr d]
  have "\<exists>r w'. copyfile h self B copy_meta True w = (r, ?self', w') \<and>
          contents w' B = Some a \<and> contents w' (source_path self) = Some a \<and>
          (\<not> copy_meta \<longrightarrow> r = Inr B)"
  proof (cases copy_meta)
    case False
    with cf have "copyfile h self B copy_meta True w = (Inr B, ?self', ?w3)"
      by simp
    with cA cB show ?thesis by blast
  next
    case True
    obtain rm w4 where m: "copy_metadata h self B True ?w3 = (rm, w4)"
      by (cases "copy_metadata h self B True ?w3")
    from copy_metadata_step [OF m] have c4: "contents w4 p = contents ?w3 p" for p
      by (rule meta_step_contents)
    from True m cf obtain r where "copyfile h self B copy_meta True w = (r, ?self', w4)"
      by (cases rm) simp_all
    with cA cB c4 True show ?thesis by simp
  qed
  then obtain r w' where c: "copyfile h self B copy_meta True w = (r, ?self', w')"
    and 1: "contents w' B = Some a" and 2: "contents w' (source_path self) = Some a"
    and 3: "\<not> copy_meta \<longrightarrow> r = Inr B"
    by blast
  from 1 cat have 4: "contents w' B = Some (concat ?cs)" by simp
  from 1 2 3 4 sizes full empty show ?thesis
    unfolding c prod.case by blast
qed

theorem copyfile_copies_content_witness:
  "stat demo_world ''/a'' = Inr 1 \<and> kind (inodes demo_world 1) = Regular [1, 2, 3] \<and>
   stat demo_world ''/b'' = Inr 2 \<and> kind (inodes demo_world 2) = Regular [9] \<and>
   fst (copyfile demo_host (init ''/a'') ''/b'' False True demo_world) = Inr ''/b'' \<and>
   contents (snd (snd (copyfile demo_host (init ''/a'') ''/b'' False True demo_world))) ''/b''
     = Some [1, 2, 3] \<and>
   contents (snd (snd (copyfile demo_host (init ''/a'') ''/b'' False True demo_world))) ''/a''
     = Some [1, 2, 3] \<and>
   stat demo_world ''/e'' = Inr 7 \<and> kind (inodes demo_world 7) = Regular [] \<and>
   contents (snd (snd (copyfile demo_host (init ''/e'') ''/b'' True True demo_world))) ''/b''
     = Some []"
proof -
  have sa: "stat demo_world (source_path (init ''/a'')) = Inr 1" by code_simp
  have ka: "kind (inodes demo_world 1) = Regular [1, 2, 3]" by code_simp
  have sb: "stat demo_world ''/b'' = Inr 2" by code_simp
  have kb: "kind (inodes demo_world 2) = Regular [9]" by code_simp
  have se: "stat demo_world (source_path (init ''/e'')) = Inr 7" by code_simp
  have ke: "kind (inodes demo_world 7) = Regular []" by code_simp
  have ne: "(1::nat) \<noteq> 2" "(7::nat) \<noteq> 2" by simp_all
  from copyfile_copies_content [OF sa ka sb kb ne(1), where h = demo_host and copy_meta = False]
  have 1: "fst (copyfile demo_host (init ''/a'') ''/b'' False True demo_world) = Inr ''/b'' \<and>
    contents (snd (snd (copyfile demo_host (init ''/a'') ''/b'' False True demo_world))) ''/b''
     = Some [1, 2, 3] \<and>
    contents (snd (snd (copyfile demo_host (init ''/a'') ''/b'' False True demo_world))) ''/a''
     = Some [1, 2, 3]"
    by (cases "copyfile demo_host (init ''/a'') ''/b'' False True demo_world")
      (simp add: init_def)
  from copyfile_copies_content [OF se ke sb kb ne(2), where h = demo_host and copy_meta = True]
  have 2: "contents (snd (snd (copyfile demo_host (init ''/e'') ''/b'' True True demo_world))) ''/b''
     = Some []"
    by (cases "copyfile demo_host (init ''/e'') ''/b'' True True demo_world") simp
  from 1 2 sa ka sb kb se ke show ?thesis by (simp add: init_def)
qed

subsection \<open>C5: a symbolic link copied as a link\<close>

lemma stat_absent: "names w p = None \<Longrightarrow> stat w p = Inl ENOENT"
  by (simp add: stat_def maxsymlinks_def eval_nat_numeral)

lemma meta_step_no_read:
  "meta_step follow w w' \<Longrightarrow> filter is_read (trace w') = filter is_read (trace w)"
proof -
  assume "meta_step follow w w'"
  then obtain evs where t: "trace w' = trace w @ evs"
    and m: "\<forall>ev \<in> set evs. \<exists>name p. ev = MetaCall name p follow"
    unfolding meta_step_def by blast
  from m have "filter is_read evs = []"
    by (fastforce simp: filter_empty_conv is_read_def)
  with t show ?thesis by simp
qed

text \<open>
  C5, as amended. Let \<^verbatim>\<open>follow_symlinks\<close> be false and the source a symbolic link with
  target \<open>t\<close> that does not lead to a named pipe, and let the destination path name
  nothing yet, in a directory that exists. Then \<^verbatim>\<open>copyfile\<close> leaves at the destination a
  symbolic link with target \<open>t\<close>, returns the destination when \<^verbatim>\<open>copy_meta\<close> is false,
  and opens no file for reading: the content behind the link is not read.
\<close>

theorem copyfile_recreates_symlink:
  assumes "readlink (source_path self) w = Inr t"
    and "\<not> (\<exists>i. stat w (source_path self) = Inr i \<and> kind (inodes w i) = Fifo)"
    and "names w B = None" and "parent_error w B = None"
  shows "(case copyfile h self B copy_meta False w of (r, self', w') \<Rightarrow>
            readlink B w' = Inr t \<and> (\<not> copy_meta \<longrightarrow> r = Inr B) \<and>
            filter is_read (events_since w w') = [])"
proof -
  let ?self' = "self\<lparr>target_path := Some B\<rparr>"
  let ?w1 = "create B (Symlink t) 511 w"
  from assms(3) have sB: "stat w B = Inl ENOENT" by (rule stat_absent)
  then have d: "destination w self B = B" by (simp add: destination_def isdir_def)
  from sB have ns: "\<not> samefile self (destination w self B) w"
    by (simp add: samefile_def d split: sum.splits)
  from assms(2) sB have sc: "special_check [source_path self, B] w = None"
    by (simp add: S_ISFIFO_def split: sum.splits)
  from assms(1) have l: "islink w (source_path self)"
    by (auto simp: islink_def lstat_def readlink_def split: option.splits kind.splits)
  from assms(3,4) have "symlink t B w = (Inr (), ?w1)" by (simp add: symlink_def)
  with l assms(1) have tr: "transfer h self B False w = (Inr (), ?w1)"
    by (simp add: transfer_def)
  have r1: "readlink B ?w1 = Inr t" by (simp add: readlink_def create_def)
  have t1: "trace ?w1 = trace w" by (simp add: create_def)
  note cf = copyfile_validated [OF ns sc, of h copy_meta False, unfolded tr d]
  have "\<exists>r w'. copyfile h self B copy_meta False w = (r, ?self', w') \<and>
          readlink B w' = Inr t \<and> (\<not> copy_meta \<longrightarrow> r = Inr B) \<and>
          filter is_read (trace w') = filter is_read (trace w) \<and>
          length (trace w) \<le> length (trace w') \<and> take (length (trace w)) (trace w') = trace w"
  proof (cases copy_meta)
    case False
    with cf have "copyfile h self B copy_meta False w = (Inr B, ?self', ?w1)" by simp
    with r1 t1 show ?thesis by simp
  next
    case True
    obtain rm w2 where m: "copy_metadata h self B False ?w1 = (rm, w2)"
      by (cases "copy_metadata h self B False ?w1")
    note ms = copy_metadata_step [OF m]
    from True m cf obtain r where "copyfile h self B copy_meta False w = (r, ?self', w2)"
      by (cases rm) simp_all
    moreover from ms r1 have "readlink B w2 = Inr t" by (simp add: meta_step_readlink)
    moreover from ms t1 have "filter is_read (trace w2) = filter is_read (trace w)"
      by (simp add: meta_step_no_read)
    moreover from ms t1 have "length (trace w) \<le> length (trace w2)"
      and "take (length (trace w)) (trace w2) = trace w"
      by (auto simp: meta_step_def)
    ultimately show ?thesis using True by simp
  qed
  then obtain r w' where c: "copyfile h self B copy_meta False w = (r, ?self', w')"
    and 1: "readlink B w' = Inr t" and 2: "\<not> copy_meta \<longrightarrow> r = Inr B"
    and f: "filter is_read (trace w') = filter is_read (trace w)"
    and tk: "take (length (trace w)) (trace w') = trace w"
    by blast
  have "filter is_read (trace w') =
          filter is_read (take (length (trace w)) (trace w')) @ filter is_read (events_since w w')"
    unfolding events_since_def by (simp only: filter_append [symmetric] append_take_drop_id)
  with f tk have 3: "filter is_read (events_since w w') = []" by simp
  from 1 2 3 show ?thesis unfolding c prod.case by blast
qed

theorem copyfile_recreates_symlink_witness:
  "readlink ''/l'' demo_world = Inr ''/a'' \<and> stat demo_world ''/l'' = Inr 1 \<and>
   kind (inodes demo_world 1) \<noteq> Fifo \<and>
   names demo_world ''/n'' = None \<and> parent_error demo_world ''/n'' = None \<and>
   fst (copyfile demo_host (init ''/l'') ''/n'' False False demo_world) = Inr ''/n'' \<and>
   readlink ''/n'' (snd (snd (copyfile demo_host (init ''/l'') ''/n'' False False demo_world)))
     = Inr ''/a''"
proof -
  have r: "readlink (source_path (init ''/l'')) demo_world = Inr ''/a''" by code_simp
  have s: "stat demo_world (source_path (init ''/l'')) = Inr 1" by code_simp
  have k: "kind (inodes demo_world 1) \<noteq> Fifo" by code_simp
  from s k have f: "\<not> (\<exists>i. stat demo_world (source_path (init ''/l'')) = Inr i \<and>
      kind (inodes demo_world i) = Fifo)" by simp
  have n: "names demo_world ''/n'' = None" by code_simp
  have p: "parent_error demo_world ''/n'' = None" by code_simp
  from copyfile_recreates_symlink [OF r f n p, where h = demo_host and copy_meta = False]
  have "fst (copyfile demo_host (init ''/l'') ''/n'' False False demo_world) = Inr ''/n'' \<and>
   readlink ''/n'' (snd (snd (copyfile demo_host (init ''/l'') ''/n'' False False demo_world)))
     = Inr ''/a''"
    by (cases "copyfile demo_host (init ''/l'') ''/n'' False False demo_world") simp
  with r s k n p show ?thesis by (simp add: init_def)
qed

text \<open>
  The claim as stated, for every call, fails where the destination exists already:
  \<^verbatim>\<open>os.symlink\<close> of line 93 raises \<^verbatim>\<open>FileExistsError\<close>, and the destination stays the
  regular file it was.
\<close>

theorem copyfile_recreates_symlink_counterexample:
  "islink demo_world ''/l'' \<and> readlink ''/l'' demo_world = Inr ''/a'' \<and>
   fst (copyfile demo_host (init ''/l'') ''/b'' False False demo_world) = Inl (OSError EEXIST) \<and>
   readlink ''/b'' (snd (snd (copyfile demo_host (init ''/l'') ''/b'' False False demo_world)))
     = Inl EINVAL"
  by code_simp

subsection \<open>C6: the special-file check\<close>

lemma special_check_pair:
  "special_check [a, b] w = Some SpecialFileError \<longleftrightarrow>
     (\<exists>i. stat w a = Inr i \<and> kind (inodes w i) = Fifo) \<or>
     (\<exists>j. stat w b = Inr j \<and> kind (inodes w j) = Fifo)"
  by (auto simp: S_ISFIFO_def split: sum.splits)

lemma special_check_result: "special_check fns w = Some e \<Longrightarrow> e = SpecialFileError"
  by (induction fns) (auto split: sum.splits if_splits)

text \<open>
  C6, as amended. The special-file check stats the source and the destination and
  ignores every \<^verbatim>\<open>OSError\<close> of either stat, on the source as on the destination. When the
  destination is not an existing directory and is not the same file as the source:
  \<^item> \<^verbatim>\<open>copyfile\<close> raises \<^verbatim>\<open>SpecialFileError\<close> exactly when one of the two stats succeeds
    and shows a named pipe, and then the world is unchanged;
  \<^item> when neither stat shows a named pipe, whether it succeeded or failed and with
    whatever error, the call goes on: its outcome and its world are those of the content
    transfer, followed by the metadata phase when \<^verbatim>\<open>copy_meta\<close> is true.
\<close>

theorem copyfile_special_check:
  assumes "\<not> isdir w dst" and "\<not> samefile self dst w"
  shows "(case copyfile h self dst copy_meta follow_symlinks w of (r, self', w') \<Rightarrow>
            (r = Inl SpecialFileError \<longleftrightarrow>
               (\<exists>i. stat w (source_path self) = Inr i \<and> kind (inodes w i) = Fifo) \<or>
               (\<exists>j. stat w dst = Inr j \<and> kind (inodes w j) = Fifo)) \<and>
            (r = Inl SpecialFileError \<longrightarrow> w' = w) \<and>
            (\<not> ((\<exists>i. stat w (source_path self) = Inr i \<and> kind (inodes w i) = Fifo) \<or>
                (\<exists>j. stat w dst = Inr j \<and> kind (inodes w j) = Fifo)) \<longrightarrow>
               (r, self', w') =
                 (case transfer h self dst follow_symlinks w of
                    (Inl e, w1) \<Rightarrow> (Inl e, self\<lparr>target_path := Some dst\<rparr>, w1)
                  | (Inr u, w1) \<Rightarrow>
                      if copy_meta then
                        (case copy_metadata h self dst follow_symlinks w1 of
                           (Inl e, w2) \<Rightarrow> (Inl e, self\<lparr>target_path := Some dst\<rparr>, w2)
                         | (Inr u, w2) \<Rightarrow> (Inr dst, self\<lparr>target_path := Some dst\<rparr>, w2))
                      else (Inr dst, self\<lparr>target_path := Some dst\<rparr>, w1))))"
proof -
  let ?pipe = "(\<exists>i. stat w (source_path self) = Inr i \<and> kind (inodes w i) = Fifo) \<or>
               (\<exists>j. stat w dst = Inr j \<and> kind (inodes w j) = Fifo)"
  let ?go = "(case transfer h self dst follow_symlinks w of
                (Inl e, w1) \<Rightarrow> (Inl e, self\<lparr>target_path := Some dst\<rparr>, w1)
              | (Inr u, w1) \<Rightarrow>
                  if copy_meta then
                    (case copy_metadata h self dst follow_symlinks w1 of
                       (Inl e, w2) \<Rightarrow> (Inl e, self\<lparr>target_path := Some dst\<rparr>, w2)
                     | (Inr u, w2) \<Rightarrow> (Inr dst, self\<lparr>target_path := Some dst\<rparr>, w2))
                  else (Inr dst, self\<lparr>target_path := Some dst\<rparr>, w1))"
  from assms(1) have d: "destination w self dst = dst" by (simp add: destination_def)
  with assms(2) have ns: "\<not> samefile self (destination w self dst) w" by simp
  obtain r self' w' where c: "copyfile h self dst copy_meta follow_symlinks w = (r, self', w')"
    by (cases "copyfile h self dst copy_meta follow_symlinks w")
  have u: "r = Inl SpecialFileError \<longrightarrow> w' = w"
    using copyfile_validation_error [of h self dst copy_meta follow_symlinks w SpecialFileError self' w'] c
    by simp
  have "(r = Inl SpecialFileError \<longleftrightarrow>
           special_check [source_path self, dst] w = Some SpecialFileError) \<and>
        (special_check [source_path self, dst] w \<noteq> Some SpecialFileError \<longrightarrow>
           (r, self', w') = ?go)"
  proof (cases "special_check [source_path self, dst] w")
    case None
    note cf = copyfile_validated [OF ns None, of h copy_meta follow_symlinks, unfolded d]
    from c cf have g: "(r, self', w') = ?go" by simp
    from c cf have "r \<noteq> Inl SpecialFileError"
      by (auto split: prod.splits sum.splits if_splits
          dest: transfer_error copy_metadata_error)
    with None g show ?thesis by simp
  next
    case (Some e)
    then have e: "e = SpecialFileError" by (rule special_check_result)
    from Some ns c have "r = Inl e"
      by (simp add: copyfile_def Let_def del: special_check.simps)
    with Some e show ?thesis by simp
  qed
  then show ?thesis unfolding c prod.case special_check_pair using u by blast
qed

theorem copyfile_special_check_witness:
  "\<not> isdir demo_world ''/p'' \<and> \<not> samefile (init ''/a'') ''/p'' demo_world \<and>
   stat demo_world ''/p'' = Inr 4 \<and> kind (inodes demo_world 4) = Fifo \<and>
   copyfile demo_host (init ''/a'') ''/p'' False True demo_world =
     (Inl SpecialFileError, \<lparr>source_path = ''/a'', target_path = Some ''/p''\<rparr>, demo_world) \<and>
   \<not> isdir demo_world ''/n'' \<and> \<not> samefile (init ''/a'') ''/n'' demo_world \<and>
   stat demo_world ''/a'' = Inr 1 \<and> kind (inodes demo_world 1) \<noteq> Fifo \<and>
   stat demo_world ''/n'' = Inl ENOENT \<and>
   fst (copyfile demo_host (init ''/a'') ''/n'' False True demo_world) = Inr ''/n''"
proof -
  have d: "\<not> isdir demo_world ''/p''" by code_simp
  have n: "\<not> samefile (init ''/a'') ''/p'' demo_world" by code_simp
  have s: "stat demo_world ''/p'' = Inr 4" by code_simp
  have k: "kind (inodes demo_world 4) = Fifo" by code_simp
  have t: "fst (snd (copyfile demo_host (init ''/a'') ''/p'' False True demo_world)) =
      \<lparr>source_path = ''/a'', target_path = Some ''/p''\<rparr>" by code_simp
  from s k have "\<exists>j. stat demo_world ''/p'' = Inr j \<and> kind (inodes demo_world j) = Fifo"
    by simp
  with copyfile_special_check [OF d n, where h = demo_host and copy_meta = False
      and follow_symlinks = True] t
  have 1: "copyfile demo_host (init ''/a'') ''/p'' False True demo_world =
     (Inl SpecialFileError, \<lparr>source_path = ''/a'', target_path = Some ''/p''\<rparr>, demo_world)"
    by (cases "copyfile demo_host (init ''/a'') ''/p'' False True demo_world") auto
  have d': "\<not> isdir demo_world ''/n''" by code_simp
  have n': "\<not> samefile (init ''/a'') ''/n'' demo_world" by code_simp
  have sa: "stat demo_world (source_path (init ''/a'')) = Inr 1" by code_simp
  have ka: "kind (inodes demo_world 1) \<noteq> Fifo" by code_simp
  have sn: "stat demo_world ''/n'' = Inl ENOENT" by code_simp
  have tr: "fst (transfer demo_host (init ''/a'') ''/n'' True demo_world) = Inr ()"
    by code_simp
  from sa ka sn
  have np: "\<not> ((\<exists>i. stat demo_world (source_path (init ''/a'')) = Inr i \<and>
                  kind (inodes demo_world i) = Fifo) \<or>
              (\<exists>j. stat demo_world ''/n'' = Inr j \<and> kind (inodes demo_world j) = Fifo))"
    by simp
  from copyfile_special_check [OF d' n', where h = demo_host and copy_meta = False
      and follow_symlinks = True] np tr
  have 2: "fst (copyfile demo_host (init ''/a'') ''/n'' False True demo_world) = Inr ''/n''"
    by (cases "copyfile demo_host (init ''/a'') ''/n'' False True demo_world";
        cases "transfer demo_host (init ''/a'') ''/n'' True demo_world")
      (auto split: sum.splits)
  from 1 2 d n s k d' n' sa ka sn show ?thesis by (simp add: init_def)
qed

text \<open>
  The claim as stated fails in its last part: a stat error on the source is swallowed
  like one on the destination, and not only "not found". The link \<^verbatim>\<open>/loop\<close> points to
  itself, so \<^verbatim>\<open>os.stat\<close> of it fails with \<^verbatim>\<open>ELOOP\<close>; with \<^verbatim>\<open>follow_symlinks\<close> false the
  call goes on and succeeds.
\<close>

theorem copyfile_special_check_counterexample:
  "stat demo_world ''/loop'' = Inl ELOOP \<and>
   fst (copyfile demo_host (init ''/loop'') ''/n'' False False demo_world) = Inr ''/n''"
  by code_simp

subsection \<open>C8 and C9: the metadata phase\<close>

lemma transfer_trace:
  "transfer h self tp fs w = (r, w1) \<Longrightarrow>
     trace w1 = trace w \<or> trace w1 = trace w @ [OpenRead (source_path self)]"
  unfolding transfer_def symlink_def open_rb_def open_wb_def
  by (auto simp: emit_def create_def set_data_def
      split: if_splits sum.splits prod.splits kind.splits target.splits option.splits)

lemma copyfile_same:
  "samefile self (destination w self dst) w \<Longrightarrow>
     copyfile h self dst copy_meta fs w = (Inl SameFileError, self\<lparr>target_path := Some dst\<rparr>, w)"
  by (simp add: copyfile_def Let_def)

lemma copyfile_special:
  "\<not> samefile self (destination w self dst) w \<Longrightarrow>
   special_check [source_path self, dst] w = Some e \<Longrightarrow>
     copyfile h self dst copy_meta fs w = (Inl e, self\<lparr>target_path := Some dst\<rparr>, w)"
  by (simp add: copyfile_def Let_def del: special_check.simps)

lemma events_since_self [simp]: "events_since w w = []"
  by (simp add: events_since_def)

lemma events_since_append: "trace w' = trace w @ evs \<Longrightarrow> events_since w w' = evs"
  by (simp add: events_since_def)

lemma copy_metadata_stat_called:
  assumes "copy_metadata h self dst fs w = (Inr u, w')"
  shows "\<exists>evs. trace w' =
           trace w @ MetaCall ''stat'' (source_path self)
             (fs \<or> \<not> (islink w (source_path self) \<and> islink w dst)) # evs"
proof -
  let ?F = "fs \<or> \<not> (islink w (source_path self) \<and> islink w dst)"
  from assms have lk: "lookup h ?F ''stat''"
    by (auto simp: copy_metadata_def Let_def split: if_splits)
  obtain rs w1 where s: "meta_stat (source_path self) ?F w = (rs, w1)"
    by (cases "meta_stat (source_path self) ?F w")
  then have t1: "trace w1 = trace w @ [MetaCall ''stat'' (source_path self) ?F]"
    by (auto simp: meta_stat_def emit_def split: sum.splits)
  from assms lk s obtain st where rs: "rs = Inr st"
    by (cases rs) (auto simp: copy_metadata_def Let_def)
  obtain r2 w2 where a: "meta_utime h dst st ?F w1 = (r2, w2)"
    by (cases "meta_utime h dst st ?F w1")
  obtain r3 w3 where b: "copyxattr h self dst ?F w2 = (r3, w3)"
    by (cases "copyxattr h self dst ?F w2")
  obtain r4 w4 where c: "meta_chmod h dst (S_IMODE st) ?F w3 = (r4, w4)"
    by (cases "meta_chmod h dst (S_IMODE st) ?F w3")
  from assms lk s rs a b c have "meta_chflags h dst st ?F w4 = (Inr u, w')"
    by (cases r2; cases r3; cases r4) (simp_all add: copy_metadata_def Let_def)
  then have "meta_step ?F w4 w'" by (rule meta_chflags_step)
  with meta_utime_step [OF a] copyxattr_step [OF b] meta_chmod_step [OF c]
  have "meta_step ?F w1 w'" by (blast intro: meta_step_trans)
  then obtain evs where "trace w' = trace w1 @ evs" unfolding meta_step_def by blast
  with t1 show ?thesis by simp
qed

text \<open>
  C8. In a call with \<^verbatim>\<open>copy_meta\<close> true, every call of the metadata phase (\<^verbatim>\<open>stat\<close>,
  \<^verbatim>\<open>utime\<close>, the extended attribute calls, \<^verbatim>\<open>chmod\<close>, \<^verbatim>\<open>chflags\<close>) is made with
  \<^verbatim>\<open>follow_symlinks\<close> equal to: the caller's \<^verbatim>\<open>follow_symlinks\<close>, or not both the source
  and the effective destination are symbolic links. (Whether they are links is the same
  right after the content transfer, when the code asks, and at the end of the call.) A
  call that succeeds has made at least the \<^verbatim>\<open>stat\<close> call, with that value.
\<close>

theorem copyfile_metadata_follow:
  "(case copyfile h self dst True follow_symlinks w of (r, self', w') \<Rightarrow>
      (\<forall>name p fl. MetaCall name p fl \<in> set (events_since w w') \<longrightarrow>
         fl = (follow_symlinks \<or>
                \<not> (islink w' (source_path self) \<and> islink w' (destination w self dst)))) \<and>
      ((\<exists>d. r = Inr d) \<longrightarrow>
         MetaCall ''stat'' (source_path self)
           (follow_symlinks \<or>
              \<not> (islink w' (source_path self) \<and> islink w' (destination w self dst)))
           \<in> set (events_since w w')))"
proof -
  let ?self' = "self\<lparr>target_path := Some dst\<rparr>"
  let ?d = "destination w self dst"
  obtain r self' w' where c: "copyfile h self dst True follow_symlinks w = (r, self', w')"
    by (cases "copyfile h self dst True follow_symlinks w")
  let ?F = "follow_symlinks \<or> \<not> (islink w' (source_path self) \<and> islink w' ?d)"
  have "(\<forall>name p fl. MetaCall name p fl \<in> set (events_since w w') \<longrightarrow> fl = ?F) \<and>
        ((\<exists>d. r = Inr d) \<longrightarrow> MetaCall ''stat'' (source_path self) ?F \<in> set (events_since w w'))"
  proof (cases "samefile self ?d w \<or> special_check [source_path self, dst] w \<noteq> None")
    case True
    with c have "w' = w \<and> (\<exists>e. r = Inl e)"
      using copyfile_same [of self w dst h True follow_symlinks]
        copyfile_special [of self w dst _ h True follow_symlinks]
      by (cases "samefile self ?d w") auto
    then show ?thesis by auto
  next
    case False
    then have ns: "\<not> samefile self ?d w" and sc: "special_check [source_path self, dst] w = None"
      by simp_all
    note cf = copyfile_validated [OF ns sc, of h True follow_symlinks]
    obtain rt w1 where t: "transfer h self dst follow_symlinks w = (rt, w1)"
      by (cases "transfer h self dst follow_symlinks w")
    from transfer_trace [OF t] obtain evs1 where t1: "trace w1 = trace w @ evs1"
      and r1: "\<forall>ev \<in> set evs1. \<exists>p. ev = OpenRead p"
      by auto
    show ?thesis
    proof (cases rt)
      case (Inl e)
      with c cf t have "w' = w1 \<and> r = Inl e" by simp
      with t1 r1 show ?thesis by (auto simp: events_since_append)
    next
      case (Inr u)
      obtain rm w2 where m: "copy_metadata h self ?d follow_symlinks w1 = (rm, w2)"
        by (cases "copy_metadata h self ?d follow_symlinks w1")
      let ?F1 = "follow_symlinks \<or> \<not> (islink w1 (source_path self) \<and> islink w1 ?d)"
      note ms = copy_metadata_step [OF m]
      from c cf t Inr m have w': "w' = w2" by (cases rm) simp_all
      from ms have F: "?F = ?F1" unfolding w' by (simp add: meta_step_islink)
      from ms obtain evs2 where t2: "trace w2 = trace w1 @ evs2"
        and r2: "\<forall>ev \<in> set evs2. \<exists>name p. ev = MetaCall name p ?F1"
        unfolding meta_step_def by blast
      from t1 t2 have es: "events_since w w' = evs1 @ evs2"
        unfolding w' by (simp add: events_since_append)
      have a: "\<forall>name p fl. MetaCall name p fl \<in> set (events_since w w') \<longrightarrow> fl = ?F1"
        unfolding es using r1 r2 by auto
      have b: "MetaCall ''stat'' (source_path self) ?F1 \<in> set (events_since w w')"
        if "\<exists>d. r = Inr d"
      proof -
        from that c cf t Inr m obtain u' where "rm = Inr u'" by (cases rm) auto
        with m copy_metadata_stat_called [of h self ?d follow_symlinks w1 u' w2]
        obtain evs where "trace w2 = trace w1 @ MetaCall ''stat'' (source_path self) ?F1 # evs"
          by blast
        with t2 have "MetaCall ''stat'' (source_path self) ?F1 \<in> set evs2" by auto
        then show ?thesis unfolding es by simp
      qed
      from a b show ?thesis unfolding F by blast
    qed
  qed
  then show ?thesis unfolding c prod.case .
qed

theorem copyfile_metadata_follow_witness:
  "fst (copyfile demo_host (init ''/l'') ''/n'' True False demo_world) = Inr ''/n'' \<and>
   islink (snd (snd (copyfile demo_host (init ''/l'') ''/n'' True False demo_world))) ''/l'' \<and>
   islink (snd (snd (copyfile demo_host (init ''/l'') ''/n'' True False demo_world))) ''/n'' \<and>
   MetaCall ''stat'' ''/l'' False
     \<in> set (events_since demo_world
              (snd (snd (copyfile demo_host (init ''/l'') ''/n'' True False demo_world)))) \<and>
   (\<forall>name p. MetaCall name p True
     \<notin> set (events_since demo_world
              (snd (snd (copyfile demo_host (init ''/l'') ''/n'' True False demo_world)))))"
proof -
  let ?c = "copyfile demo_host (init ''/l'') ''/n'' True False demo_world"
  have r: "fst ?c = Inr ''/n''" by code_simp
  have l: "islink (snd (snd ?c)) ''/l''" by code_simp
  have n: "islink (snd (snd ?c)) ''/n''" by code_simp
  have d: "destination demo_world (init ''/l'') ''/n'' = ''/n''" by code_simp
  have s: "source_path (init ''/l'') = ''/l''" by (simp add: init_def)
  from copyfile_metadata_follow [where h = demo_host and self = "init ''/l''" and dst = "''/n''"
      and follow_symlinks = False and w = demo_world] r l n
  have "MetaCall ''stat'' ''/l'' False \<in> set (events_since demo_world (snd (snd ?c))) \<and>
    (\<forall>name p. MetaCall name p True \<notin> set (events_since demo_world (snd (snd ?c))))"
    unfolding d s by (cases ?c) auto
  with r l n show ?thesis by simp
qed

lemma fields_emit [simp]:
  "names (emit ev w) = names w" "next_ino (emit ev w) = next_ino w"
  "now_ns (emit ev w) = now_ns w"
  by (simp_all add: emit_def)




subsection \<open>C7: extended attributes\<close>

lemma copy_one_attribute:
  assumes "os_stat (source_path self) follow w = Inr i" and "os_stat dst follow w = Inr j"
    and "map_of (xattrs (inodes w i)) name = Some v"
  shows "\<exists>w2. meta_step follow w w2 \<and>
           (case attr_err h i j name of
              None \<Rightarrow>
                inodes w2 = (inodes w)(j := (inodes w j)
                   \<lparr>xattrs := AList.update name v (xattrs (inodes w j))\<rparr>) \<and>
                copyxattr_names h self dst follow (name # rest) w =
                  copyxattr_names h self dst follow rest w2
            | Some e \<Rightarrow>
                inodes w2 = inodes w \<and>
                copyxattr_names h self dst follow (name # rest) w =
                  (if e \<notin> {EPERM, ENOTSUP, ENODATA, EINVAL} then (Inl (OSError e), w2)
                   else copyxattr_names h self dst follow rest w2))"
proof -
  let ?g = "emit (MetaCall ''getxattr'' (source_path self) follow) w"
  have sg: "os_stat dst follow ?g = Inr j"
    using assms(2) meta_step_os_stat [OF meta_step_emit] by simp
  show ?thesis
  proof (cases "getxattr_err h i name")
    case (Some e)
    with assms(1) have g: "getxattr h (source_path self) name follow w = (Inl e, ?g)"
      by (simp add: getxattr_def)
    from Some have "attr_err h i j name = Some e" by (simp add: attr_err_def)
    with g meta_step_emit [of follow w "''getxattr''" "source_path self"] show ?thesis
      by (intro exI [of _ ?g]) simp
  next
    case None
    with assms(1,3) have g: "getxattr h (source_path self) name follow w = (Inr v, ?g)"
      by (simp add: getxattr_def)
    let ?s = "emit (MetaCall ''setxattr'' dst follow) ?g"
    show ?thesis
    proof (cases "setxattr_err h j name")
      case (Some e)
      with sg have s: "setxattr h dst name v follow ?g = (Inl e, ?s)"
        by (simp add: setxattr_def)
      from None Some have "attr_err h i j name = Some e" by (simp add: attr_err_def)
      moreover have "meta_step follow w ?s"
        by (blast intro: meta_step_trans meta_step_emit)
      ultimately show ?thesis using g s
        by (intro exI [of _ ?s]) simp
    next
      case n2: None
      let ?w2 = "emit (MetaCall ''setxattr'' dst follow)
                   (?g\<lparr>inodes := (inodes ?g)(j := (inodes ?g j)
                      \<lparr>xattrs := AList.update name v (xattrs (inodes ?g j))\<rparr>)\<rparr>)"
      from n2 sg have s: "setxattr h dst name v follow ?g = (Inr (), ?w2)"
        by (simp add: setxattr_def)
      from None n2 have "attr_err h i j name = None" by (simp add: attr_err_def)
      moreover have "meta_step follow w ?w2"
        using meta_step_trans [OF getxattr_step [OF g] setxattr_step [OF s]] .
      ultimately show ?thesis using g s
        by (intro exI [of _ ?w2]) simp
    qed
  qed
qed

lemma copyxattr_names_spec:
  assumes "os_stat (source_path self) follow w = Inr i" and "os_stat dst follow w = Inr j"
    and "\<forall>n \<in> set ns. map_of (xattrs (inodes w i)) n \<noteq> None"
    and "copyxattr_names h self dst follow ns w = (r, w')"
  shows "((\<exists>u. r = Inr u) \<longleftrightarrow>
            (\<forall>n \<in> set ns. \<forall>e. attr_err h i j n = Some e \<longrightarrow>
               e \<in> {EPERM, ENOTSUP, ENODATA, EINVAL})) \<and>
         (\<forall>e. r = Inl e \<longrightarrow>
            (\<exists>n \<in> set ns. \<exists>e'. attr_err h i j n = Some e' \<and>
               e' \<notin> {EPERM, ENOTSUP, ENODATA, EINVAL} \<and> e = OSError e')) \<and>
         ((\<exists>u. r = Inr u) \<longrightarrow>
            (\<forall>n. map_of (xattrs (inodes w' j)) n =
               (if n \<in> set ns \<and> attr_err h i j n = None then map_of (xattrs (inodes w i)) n
                else map_of (xattrs (inodes w j)) n)))"
  using assms
proof (induction ns arbitrary: w)
  case Nil
  then show ?case by auto
next
  case (Cons name rest)
  let ?T = "{EPERM, ENOTSUP, ENODATA, EINVAL}"
  from Cons.prems(3) obtain v where v: "map_of (xattrs (inodes w i)) name = Some v"
    by auto
  from copy_one_attribute [OF Cons.prems(1,2) v, of h rest]
  obtain w2 where ms: "meta_step follow w w2"
    and one: "case attr_err h i j name of
                None \<Rightarrow>
                  inodes w2 = (inodes w)(j := (inodes w j)
                     \<lparr>xattrs := AList.update name v (xattrs (inodes w j))\<rparr>) \<and>
                  copyxattr_names h self dst follow (name # rest) w =
                    copyxattr_names h self dst follow rest w2
              | Some e \<Rightarrow>
                  inodes w2 = inodes w \<and>
                  copyxattr_names h self dst follow (name # rest) w =
                    (if e \<notin> ?T then (Inl (OSError e), w2)
                     else copyxattr_names h self dst follow rest w2)"
    by blast
  from ms Cons.prems(1,2) have st2: "os_stat (source_path self) follow w2 = Inr i"
    "os_stat dst follow w2 = Inr j"
    by (simp_all add: meta_step_os_stat)
  show ?case
  proof (cases "attr_err h i j name")
    case None
    with one have i2: "inodes w2 = (inodes w)(j := (inodes w j)
                     \<lparr>xattrs := AList.update name v (xattrs (inodes w j))\<rparr>)"
      and rec: "copyxattr_names h self dst follow rest w2 = (r, w')"
      using Cons.prems(4) by (simp_all del: copyxattr_names.simps)
    have mi: "map_of (xattrs (inodes w2 i)) = map_of (xattrs (inodes w i))"
      using v by (auto simp: i2 update_conv' map_upd_triv)
    have mj: "map_of (xattrs (inodes w2 j)) = (map_of (xattrs (inodes w j)))(name \<mapsto> v)"
      by (simp add: i2 update_conv')
    from Cons.prems(3) mi have pres: "\<forall>n \<in> set rest. map_of (xattrs (inodes w2 i)) n \<noteq> None"
      by simp
    note IH = Cons.IH [OF st2 pres rec, unfolded mi mj]
    from IH None v show ?thesis by auto
  next
    case (Some e)
    with one have i2: "inodes w2 = inodes w"
      and rec: "copyxattr_names h self dst follow (name # rest) w =
                    (if e \<notin> ?T then (Inl (OSError e), w2)
                     else copyxattr_names h self dst follow rest w2)"
      by simp_all
    show ?thesis
    proof (cases "e \<in> ?T")
      case False
      then have "(e \<notin> ?T) = True" by blast
      with rec have "copyxattr_names h self dst follow (name # rest) w = (Inl (OSError e), w2)"
        by (simp only: if_True)
      with Cons.prems(4) have "r = Inl (OSError e)"
        by (simp only: prod.inject)
      with Some False show ?thesis by auto
    next
      case True
      then have "(e \<notin> ?T) = False" by blast
      with rec have "copyxattr_names h self dst follow (name # rest) w =
                       copyxattr_names h self dst follow rest w2"
        by (simp only: if_False)
      with Cons.prems(4) have rec': "copyxattr_names h self dst follow rest w2 = (r, w')"
        by (simp only:)
      from Cons.prems(3) have pres: "\<forall>n \<in> set rest. map_of (xattrs (inodes w2 i)) n \<noteq> None"
        by (simp add: i2)
      note IH = Cons.IH [OF st2 pres rec', unfolded i2]
      from IH Some True show ?thesis by auto
    qed
  qed
qed

text \<open>
  C7. \<^verbatim>\<open>_copyxattr\<close> on a host that has \<^verbatim>\<open>os.listxattr\<close>, with the source resolving to
  inode \<open>i\<close> and the destination to inode \<open>j\<close>.
  \<^item> If listing fails with \<^verbatim>\<open>ENOTSUP\<close>, \<^verbatim>\<open>ENODATA\<close> or \<^verbatim>\<open>EINVAL\<close>, the call returns
    normally and no inode has changed; with any other error it raises that error.
  \<^item> If listing succeeds, the call returns normally exactly when every listed attribute
    either copies without error or fails with \<^verbatim>\<open>EPERM\<close>, \<^verbatim>\<open>ENOTSUP\<close>, \<^verbatim>\<open>ENODATA\<close> or
    \<^verbatim>\<open>EINVAL\<close>; an exception it raises is the \<^verbatim>\<open>OSError\<close> of a listed attribute with
    another error.
  \<^item> When it returns normally, every listed attribute that met no error has on the
    destination the value it has on the source, and every listed attribute that met a
    tolerated error is on the destination what it was before: it was skipped, the rest
    copied.

  The errors are compared as numbers, so an error the host reports as \<^verbatim>\<open>EOPNOTSUPP\<close> is
  \<^verbatim>\<open>ENOTSUP\<close> and is tolerated.
\<close>

theorem copyxattr_tolerates:
  assumes "os_has h ''listxattr''"
    and "os_stat (source_path self) follow w = Inr i" and "os_stat dst follow w = Inr j"
  shows "(case copyxattr h self dst follow w of (r, w') \<Rightarrow>
      (\<forall>e. listxattr_err h i = Some e \<longrightarrow>
         (if e \<in> {ENOTSUP, ENODATA, EINVAL} then r = Inr () \<and> inodes w' = inodes w
          else r = Inl (OSError e))) \<and>
      (listxattr_err h i = None \<longrightarrow>
         ((\<exists>u. r = Inr u) \<longleftrightarrow>
            (\<forall>n \<in> fst ` set (xattrs (inodes w i)). \<forall>e. attr_err h i j n = Some e \<longrightarrow>
               e \<in> {EPERM, ENOTSUP, ENODATA, EINVAL})) \<and>
         (\<forall>e. r = Inl e \<longrightarrow>
            (\<exists>n \<in> fst ` set (xattrs (inodes w i)). \<exists>e'. attr_err h i j n = Some e' \<and>
               e' \<notin> {EPERM, ENOTSUP, ENODATA, EINVAL} \<and> e = OSError e')) \<and>
         ((\<exists>u. r = Inr u) \<longrightarrow>
            (\<forall>n \<in> fst ` set (xattrs (inodes w i)).
               map_of (xattrs (inodes w' j)) n =
                 (if attr_err h i j n = None then map_of (xattrs (inodes w i)) n
                  else map_of (xattrs (inodes w j)) n)))))"
proof -
  let ?w1 = "emit (MetaCall ''listxattr'' (source_path self) follow) w"
  let ?ns = "map fst (xattrs (inodes w i))"
  obtain r w' where c: "copyxattr h self dst follow w = (r, w')"
    by (cases "copyxattr h self dst follow w")
  have A: "if e \<in> {ENOTSUP, ENODATA, EINVAL} then r = Inr () \<and> inodes w' = inodes w
           else r = Inl (OSError e)" if "listxattr_err h i = Some e" for e
  proof -
    from that assms(2) have "listxattr h (source_path self) follow w = (Inl e, ?w1)"
      by (simp add: listxattr_def)
    with c assms(1) show ?thesis
      by (auto simp: copyxattr_def split: if_splits)
  qed
  have B: "((\<exists>u. r = Inr u) \<longleftrightarrow>
            (\<forall>n \<in> fst ` set (xattrs (inodes w i)). \<forall>e. attr_err h i j n = Some e \<longrightarrow>
               e \<in> {EPERM, ENOTSUP, ENODATA, EINVAL})) \<and>
         (\<forall>e. r = Inl e \<longrightarrow>
            (\<exists>n \<in> fst ` set (xattrs (inodes w i)). \<exists>e'. attr_err h i j n = Some e' \<and>
               e' \<notin> {EPERM, ENOTSUP, ENODATA, EINVAL} \<and> e = OSError e')) \<and>
         ((\<exists>u. r = Inr u) \<longrightarrow>
            (\<forall>n \<in> fst ` set (xattrs (inodes w i)).
               map_of (xattrs (inodes w' j)) n =
                 (if attr_err h i j n = None then map_of (xattrs (inodes w i)) n
                  else map_of (xattrs (inodes w j)) n)))"
    if "listxattr_err h i = None"
  proof -
    from that assms(2) have "listxattr h (source_path self) follow w = (Inr ?ns, ?w1)"
      by (simp add: listxattr_def)
    with c assms(1) have l: "copyxattr_names h self dst follow ?ns ?w1 = (r, w')"
      by (simp add: copyxattr_def)
    have s1: "os_stat (source_path self) follow ?w1 = Inr i" "os_stat dst follow ?w1 = Inr j"
      using assms(2,3) meta_step_os_stat [OF meta_step_emit] by simp_all
    have p: "\<forall>n \<in> set ?ns. map_of (xattrs (inodes ?w1 i)) n \<noteq> None"
      by (simp add: map_of_eq_None_iff)
    note spec = copyxattr_names_spec [OF s1 p l, unfolded inodes_emit]
    have sn: "set ?ns = fst ` set (xattrs (inodes w i))" by simp
    from spec have 1: "(\<exists>u. r = Inr u) \<longleftrightarrow>
            (\<forall>n \<in> set ?ns. \<forall>e. attr_err h i j n = Some e \<longrightarrow>
               e \<in> {EPERM, ENOTSUP, ENODATA, EINVAL})"
      by (rule conjunct1)
    from spec have 2: "\<forall>e. r = Inl e \<longrightarrow>
            (\<exists>n \<in> set ?ns. \<exists>e'. attr_err h i j n = Some e' \<and>
               e' \<notin> {EPERM, ENOTSUP, ENODATA, EINVAL} \<and> e = OSError e')"
      by (rule conjunct2 [THEN conjunct1])
    from spec have 3: "(\<exists>u. r = Inr u) \<longrightarrow>
            (\<forall>n. map_of (xattrs (inodes w' j)) n =
               (if n \<in> set ?ns \<and> attr_err h i j n = None then map_of (xattrs (inodes w i)) n
                else map_of (xattrs (inodes w j)) n))"
      by (rule conjunct2 [THEN conjunct2])
    from 3 have 4: "(\<exists>u. r = Inr u) \<longrightarrow>
            (\<forall>n \<in> set ?ns.
               map_of (xattrs (inodes w' j)) n =
                 (if attr_err h i j n = None then map_of (xattrs (inodes w i)) n
                  else map_of (xattrs (inodes w j)) n))"
      by simp
    from 1 2 4 show ?thesis unfolding sn by (intro conjI)
  qed
  from A B show ?thesis unfolding c prod.case by blast
qed

theorem copyxattr_tolerates_witness:
  "os_has demo_host ''listxattr'' \<and> os_stat ''/a'' True demo_world = Inr 1 \<and>
   os_stat ''/b'' True demo_world = Inr 2 \<and>
   xattrs (inodes demo_world 1) = [(''user.a'', [7]), (''user.b'', [8])] \<and>
   attr_err demo_host 1 2 ''user.a'' = Some EPERM \<and> attr_err demo_host 1 2 ''user.b'' = None \<and>
   fst (copyxattr demo_host (init ''/a'') ''/b'' True demo_world) = Inr () \<and>
   map_of (xattrs (inodes (snd (copyxattr demo_host (init ''/a'') ''/b'' True demo_world)) 2))
     ''user.b'' = Some [8] \<and>
   map_of (xattrs (inodes (snd (copyxattr demo_host (init ''/a'') ''/b'' True demo_world)) 2))
     ''user.a'' = None \<and>
   listxattr_err nolist_host 1 = Some EOPNOTSUPP \<and>
   fst (copyxattr nolist_host (init ''/a'') ''/b'' True demo_world) = Inr () \<and>
   inodes (snd (copyxattr nolist_host (init ''/a'') ''/b'' True demo_world)) = inodes demo_world"
proof -
  let ?c = "copyxattr demo_host (init ''/a'') ''/b'' True demo_world"
  have h: "os_has demo_host ''listxattr''" by code_simp
  have a: "os_stat (source_path (init ''/a'')) True demo_world = Inr 1" by code_simp
  have b: "os_stat ''/b'' True demo_world = Inr 2" by code_simp
  have x: "xattrs (inodes demo_world 1) = [(''user.a'', [7]), (''user.b'', [8])]" by code_simp
  have y: "xattrs (inodes demo_world 2) = []" by code_simp
  have l: "listxattr_err demo_host 1 = None" by code_simp
  have ea: "attr_err demo_host 1 2 ''user.a'' = Some EPERM" by code_simp
  have eb: "attr_err demo_host 1 2 ''user.b'' = None" by code_simp
  from copyxattr_tolerates [OF h a b] l ea eb
  have "fst ?c = Inr () \<and> map_of (xattrs (inodes (snd ?c) 2)) ''user.b'' = Some [8] \<and>
        map_of (xattrs (inodes (snd ?c) 2)) ''user.a'' = None"
    unfolding x y by (cases ?c) auto
  moreover
  have h': "os_has nolist_host ''listxattr''" by code_simp
  have l': "listxattr_err nolist_host 1 = Some EOPNOTSUPP" by code_simp
  have o: "EOPNOTSUPP \<in> {ENOTSUP, ENODATA, EINVAL}" by code_simp
  from copyxattr_tolerates [OF h' a b] l' o
  have "fst (copyxattr nolist_host (init ''/a'') ''/b'' True demo_world) = Inr () \<and>
        inodes (snd (copyxattr nolist_host (init ''/a'') ''/b'' True demo_world)) = inodes demo_world"
    by (cases "copyxattr nolist_host (init ''/a'') ''/b'' True demo_world") auto
  ultimately show ?thesis using h a b x ea eb l' by (simp add: init_def)
qed

subsection \<open>Every call returns\<close>

text \<open>
  The only call of the model that does not return is \<^verbatim>\<open>open\<close> of a named pipe.
  \<^verbatim>\<open>copyfile\<close> never reaches it: both paths it opens have passed the special-file check.
\<close>

lemma transfer_hangs:
  assumes "transfer h self tp fs w = (Inl Hangs, w1)"
  shows "(\<exists>i. stat w (source_path self) = Inr i \<and> kind (inodes w i) = Fifo) \<or>
         (\<exists>j. stat w tp = Inr j \<and> kind (inodes w j) = Fifo)"
  using assms unfolding transfer_def symlink_def open_rb_def open_wb_def
  by (auto simp: stat_def
      split: if_splits sum.splits prod.splits kind.splits target.splits option.splits)

lemma copyfile_returns: "fst (copyfile h self dst copy_meta fs w) \<noteq> Inl Hangs"
proof (cases "samefile self (destination w self dst) w")
  case True
  then show ?thesis by (simp add: copyfile_same)
next
  case ns: False
  show ?thesis
  proof (cases "special_check [source_path self, dst] w")
    case (Some e)
    with ns special_check_result [OF Some] show ?thesis by (simp add: copyfile_special)
  next
    case None
    then have "special_check [source_path self, dst] w \<noteq> Some SpecialFileError" by simp
    then have nf: "\<not> ((\<exists>i. stat w (source_path self) = Inr i \<and> kind (inodes w i) = Fifo) \<or>
         (\<exists>j. stat w dst = Inr j \<and> kind (inodes w j) = Fifo))"
      unfolding special_check_pair .
    obtain rt w1 where t: "transfer h self dst fs w = (rt, w1)"
      by (cases "transfer h self dst fs w")
    with nf transfer_hangs [of h self dst fs w w1] have "rt \<noteq> Inl Hangs" by blast
    with t copyfile_validated [OF ns None, of h copy_meta fs] show ?thesis
      by (auto split: sum.splits prod.splits dest: copy_metadata_error)
  qed
qed

end
